theory Spec2Isabelle
  imports Complex_Main
begin

section \<open>The snake game of \<^verbatim>\<open>LevServerSite/snake/game.js\<close>\<close>

text \<open>
  The script keeps its state in top-level variables and changes it from its callbacks:
  the images' \<^verbatim>\<open>onload\<close>, the interval timer (\<^verbatim>\<open>drawGame\<close>), the \<^verbatim>\<open>keydown\<close> listener
  (\<^verbatim>\<open>direction\<close>) and the speed slider's \<^verbatim>\<open>onchange\<close>. The model below passes a record of
  that state through each function. The parts of the browser the script talks to are in
  the record too: the table of running interval timers, the table of event listeners, the
  \<^verbatim>\<open>complete\<close> flags of the two images and the writes to the message header. Drawing on
  the canvas and \<^verbatim>\<open>console.log\<close> change nothing that the script reads back and are left out.
\<close>

subsection \<open>Numbers\<close>

text \<open>
  A JavaScript Number is an IEEE-754 binary64 value. The coordinates and the score are
  small integers, on which \<^verbatim>\<open>+\<close>, \<^verbatim>\<open>-\<close> and \<^verbatim>\<open>==\<close> are exact, so they are \<^typ>\<open>int\<close> here.
  \<^verbatim>\<open>Math.random()\<close> returns a fraction, and each \<^verbatim>\<open>*\<close> and \<^verbatim>\<open>+\<close> on it rounds its exact
  result to the nearest binary64 value, ties to the even significand. \<open>fl\<close> is that
  rounding on rationals: the significand has 53 bits, the unit in the last place of a
  value in \<open>[2^e, 2^(e+1))\<close> is \<open>2^(e-52)\<close>. The exponent range is unbounded here (no
  overflow, no subnormals): every binary64 value is a fixed point of \<open>fl\<close>, and on the
  products and sums of \<^verbatim>\<open>generateFoodCoords\<close>, which are exact wherever binary64 would
  be subnormal, \<open>fl\<close> rounds as binary64 does.
\<close>

function bitLength :: "int \<Rightarrow> nat" where
  "bitLength n = (if n \<le> 0 then 0 else Suc (bitLength (n div 2)))"
  by pat_completeness auto
termination
  by (relation "measure nat") auto

declare bitLength.simps [simp del]

definition binade :: "rat \<Rightarrow> int" where
  \<comment> \<open>for \<open>0 < a\<close>, the \<open>e\<close> with \<open>2^e \<le> a < 2^(e+1)\<close>\<close>
  "binade a =
     (if 1 \<le> a then int (bitLength \<lfloor>a\<rfloor>) - 1
      else - int (bitLength (\<lceil>1 / a\<rceil> - 1)))"

definition roundTiesToEven :: "rat \<Rightarrow> int" where
  "roundTiesToEven q =
     (let f = \<lfloor>q\<rfloor>; d = q - of_int f
      in if d < 1 / 2 then f
         else if 1 / 2 < d then f + 1
         else if even f then f else f + 1)"

definition fl :: "rat \<Rightarrow> rat" where
  "fl v =
     (if v = 0 then 0
      else let a = \<bar>v\<bar>; ulp = 2 powi (binade a - 52)
           in sgn v * of_int (roundTiesToEven (a / ulp)) * ulp)"

subsection \<open>Constants and state\<close>

definition arenaWidthBoxes :: int where "arenaWidthBoxes = 17"
definition arenaHeightBoxes :: int where "arenaHeightBoxes = 15"
definition arenaX0Boxes :: int where "arenaX0Boxes = 1"
definition arenaY0Boxes :: int where "arenaY0Boxes = 3"
definition boxSidePxls :: int where "boxSidePxls = 32"

record coord =
  x :: int
  y :: int

text \<open>
  \<open>Direction\<close> is the function \<^verbatim>\<open>direction\<close> passed to \<^verbatim>\<open>addEventListener\<close>, the only
  callback the script ever registers as an event listener.
\<close>

datatype callback = Direction

datatype image = GroundImg | FoodImg

datatype js_error = TypeError

text \<open>
  \<open>game\<close> is \<open>None\<close> while the variable is \<^verbatim>\<open>undefined\<close> or \<^verbatim>\<open>null\<close>, else the
  identifier \<^verbatim>\<open>setInterval\<close> returned. \<open>snakeDir\<close> is \<open>None\<close> while \<^verbatim>\<open>undefined\<close>.
  \<open>keyDownListener\<close> is the constant of that name: what \<^verbatim>\<open>addEventListener\<close> returned
  when the script was loaded. \<open>messageLog\<close> holds every write to the message header
  (text and colour) in the order made; the header shows the last one.
\<close>

record page =
  snake :: "coord list"
  game :: "nat option"
  snakeDir :: "string option"
  score :: int
  foodCoords :: coord
  gameFrameRateHz :: int
  keyDownListener :: "callback option"
  groundImgComplete :: bool
  foodImgComplete :: bool
  timers :: "(nat \<times> int) list"
  timerCount :: nat
  listeners :: "(string \<times> callback) list"
  messageLog :: "(string \<times> string) list"

subsection \<open>The browser's side\<close>

text \<open>
  \<^verbatim>\<open>setInterval\<close> returns an identifier greater than zero and starts a timer;
  \<^verbatim>\<open>clearInterval\<close> stops the timer with the identifier given and does nothing for
  \<^verbatim>\<open>undefined\<close> or \<^verbatim>\<open>null\<close>. \<^verbatim>\<open>addEventListener\<close> registers the callback (once) and
  returns \<^verbatim>\<open>undefined\<close>; \<^verbatim>\<open>removeEventListener\<close> takes out the entry whose callback is
  the one given, and none when given \<^verbatim>\<open>undefined\<close>.
\<close>

definition setInterval :: "int \<Rightarrow> page \<Rightarrow> nat \<times> page" where
  "setInterval delay s =
     (let h = Suc (timerCount s)
      in (h, s\<lparr>timers := timers s @ [(h, delay)], timerCount := h\<rparr>))"

definition clearInterval :: "nat option \<Rightarrow> page \<Rightarrow> page" where
  "clearInterval g s =
     (case g of
        None \<Rightarrow> s
      | Some h \<Rightarrow> s\<lparr>timers := filter (\<lambda>t. fst t \<noteq> h) (timers s)\<rparr>)"

definition addEventListener ::
  "string \<Rightarrow> callback \<Rightarrow> (string \<times> callback) list \<Rightarrow> callback option \<times> (string \<times> callback) list"
where
  "addEventListener ty f ls = (None, if (ty, f) \<in> set ls then ls else ls @ [(ty, f)])"

definition removeEventListener ::
  "string \<Rightarrow> callback option \<Rightarrow> (string \<times> callback) list \<Rightarrow> (string \<times> callback) list"
where
  "removeEventListener ty c ls =
     (case c of None \<Rightarrow> ls | Some f \<Rightarrow> remove1 (ty, f) ls)"

subsection \<open>Helper functions of the script\<close>

text \<open>
  \<^verbatim>\<open>generateFoodCoords\<close> (lines 109 to 114) calls \<^verbatim>\<open>Math.random()\<close> twice, first for
  \<open>x\<close>; the two results are the arguments \<open>r1\<close> and \<open>r2\<close>.
\<close>

definition generateFoodCoords :: "rat \<Rightarrow> rat \<Rightarrow> coord" where
  "generateFoodCoords r1 r2 =
     \<lparr>x = \<lfloor>fl (fl (r1 * of_int arenaWidthBoxes) + of_int arenaX0Boxes)\<rfloor> * boxSidePxls,
      y = \<lfloor>fl (fl (r2 * of_int arenaHeightBoxes) + of_int arenaY0Boxes)\<rfloor> * boxSidePxls\<rparr>"

text \<open>
  \<^verbatim>\<open>setGameMessage(message, color = "green")\<close> (lines 167 to 173); \<open>None\<close> is an
  omitted colour.
\<close>

definition setGameMessage :: "string \<Rightarrow> string option \<Rightarrow> page \<Rightarrow> page" where
  "setGameMessage message color s =
     s\<lparr>messageLog := messageLog s @
          [(message, case color of None \<Rightarrow> ''green'' | Some c \<Rightarrow> c)]\<rparr>"

text \<open>
  \<^verbatim>\<open>stopGame(reasonForStopping = "unknown")\<close> (lines 155 to 165); \<open>None\<close> is an omitted
  reason.
\<close>

definition stopGame :: "string option \<Rightarrow> page \<Rightarrow> page" where
  "stopGame reasonForStopping s =
     (let reason = (case reasonForStopping of None \<Rightarrow> ''unknown'' | Some r \<Rightarrow> r);
          s1 = clearInterval (game s) s;
          s2 = s1\<lparr>game := None\<rparr>;
          s3 = setGameMessage reason (Some ''red'') s2
      in s3\<lparr>listeners := removeEventListener ''keydown'' (keyDownListener s3) (listeners s3)\<rparr>)"

text \<open>\<^verbatim>\<open>!game\<close> and \<^verbatim>\<open>!snakeDir\<close>: what JavaScript takes for false.\<close>

definition falsyHandle :: "nat option \<Rightarrow> bool" where
  "falsyHandle g = (case g of None \<Rightarrow> True | Some h \<Rightarrow> h = 0)"

definition falsyString :: "string option \<Rightarrow> bool" where
  "falsyString d = (case d of None \<Rightarrow> True | Some t \<Rightarrow> t = [])"

text \<open>\<^verbatim>\<open>tryStartingGame\<close> (lines 135 to 140).\<close>

definition tryStartingGame :: "page \<Rightarrow> page" where
  "tryStartingGame s =
     (if foodImgComplete s \<and> groundImgComplete s \<and> falsyHandle (game s)
      then let (h, s1) = setInterval (gameFrameRateHz s * 10) s;
               s2 = s1\<lparr>game := Some h\<rparr>
           in setGameMessage ''Press an arrow key to start moving!'' None s2
      else s)"

text \<open>The keydown listener \<^verbatim>\<open>direction\<close> (lines 117 to 132); \<open>code\<close> is \<^verbatim>\<open>event.keyCode\<close>.\<close>

definition direction :: "int \<Rightarrow> page \<Rightarrow> page" where
  "direction code s =
     (if code \<in> set [37, 38, 39, 40]
      then let s1 = (if falsyString (snakeDir s)
                     then setGameMessage ''Yum yum carrots!'' None s else s);
               s2 = (if code = 37 \<and> snakeDir s1 \<noteq> Some ''right''
                     then s1\<lparr>snakeDir := Some ''left''\<rparr> else s1);
               s3 = (if code = 38 \<and> snakeDir s2 \<noteq> Some ''down''
                     then s2\<lparr>snakeDir := Some ''up''\<rparr> else s2);
               s4 = (if code = 39 \<and> snakeDir s3 \<noteq> Some ''left''
                     then s3\<lparr>snakeDir := Some ''right''\<rparr> else s3)
           in (if code = 40 \<and> snakeDir s4 \<noteq> Some ''up''
               then s4\<lparr>snakeDir := Some ''down''\<rparr> else s4)
      else s)"

text \<open>
  \<^verbatim>\<open>snakeStrikesSelf\<close> (lines 143 to 152). The loop runs over the whole body and calls
  \<^verbatim>\<open>stopGame\<close> once for each segment that the head lies on; the second argument of that
  call has no parameter to go to.
\<close>

fun strikeLoop :: "coord \<Rightarrow> coord list \<Rightarrow> page \<Rightarrow> page" where
  "strikeLoop head [] s = s"
| "strikeLoop head (b # body) s =
     strikeLoop head body
       (if x head = x b \<and> y head = y b
        then stopGame (Some ''Oh no! Snake ate itself!'') s else s)"

definition snakeStrikesSelf :: "page \<Rightarrow> page" where
  "snakeStrikesSelf s =
     (case snake s of
        [] \<Rightarrow> s
      | head # body \<Rightarrow> if length (snake s) \<le> 1 then s else strikeLoop head body s)"

subsection \<open>One tick: \<^verbatim>\<open>drawGame\<close>\<close>

text \<open>
  Lines 197 to 204: the head is compared with the food; on a match the score goes up and
  new food is made, otherwise \<^verbatim>\<open>snake.pop()\<close> takes the last segment off.
\<close>

definition eatOrPop :: "rat \<Rightarrow> rat \<Rightarrow> int \<Rightarrow> int \<Rightarrow> page \<Rightarrow> page" where
  "eatOrPop r1 r2 snakeX snakeY s =
     (if snakeX = x (foodCoords s) \<and> snakeY = y (foodCoords s)
      then (s\<lparr>score := score s + 1\<rparr>)\<lparr>foodCoords := generateFoodCoords r1 r2\<rparr>
      else s\<lparr>snake := butlast (snake s)\<rparr>)"

text \<open>Lines 206 to 213: the four boundary tests and the stop at a wall.\<close>

definition isSnakeWest :: "int \<Rightarrow> bool" where
  "isSnakeWest snakeX = (snakeX < boxSidePxls)"

definition isSnakeEast :: "int \<Rightarrow> bool" where
  "isSnakeEast snakeX = (boxSidePxls * 17 < snakeX)"

definition isSnakeNorth :: "int \<Rightarrow> bool" where
  "isSnakeNorth snakeY = (snakeY < 3 * boxSidePxls)"

definition isSnakeSouth :: "int \<Rightarrow> bool" where
  "isSnakeSouth snakeY = (snakeY > boxSidePxls * 17)"

definition checkWalls :: "int \<Rightarrow> int \<Rightarrow> page \<Rightarrow> page" where
  "checkWalls snakeX snakeY s =
     (if isSnakeWest snakeX \<or> isSnakeEast snakeX \<or> isSnakeNorth snakeY \<or> isSnakeSouth snakeY
      then stopGame (Some ''Oh no! Snake ran into the wall and died!'') s
      else s)"

text \<open>Lines 215 to 225: the step in the current direction and the new head.\<close>

definition newHead :: "string option \<Rightarrow> int \<Rightarrow> int \<Rightarrow> coord" where
  "newHead dir snakeX snakeY =
     (let snakeX1 = (if dir = Some ''left'' then snakeX - boxSidePxls else snakeX);
          snakeX2 = (if dir = Some ''right'' then snakeX1 + boxSidePxls else snakeX1);
          snakeY1 = (if dir = Some ''up'' then snakeY - boxSidePxls else snakeY);
          snakeY2 = (if dir = Some ''down'' then snakeY1 + boxSidePxls else snakeY1)
      in \<lparr>x = snakeX2, y = snakeY2\<rparr>)"

text \<open>
  The whole callback (lines 176 to 233). \<^verbatim>\<open>snake[0].x\<close> on an empty array is a
  \<^verbatim>\<open>TypeError\<close>, thrown before anything has been changed. \<^verbatim>\<open>stopGame\<close> returns to its
  caller, so the lines after a stop run as they do without one.
\<close>

definition drawGame :: "rat \<Rightarrow> rat \<Rightarrow> page \<Rightarrow> js_error + page" where
  "drawGame r1 r2 s =
     (case snake s of
        [] \<Rightarrow> Inl TypeError
      | h # _ \<Rightarrow>
          let snakeX = x h;
              snakeY = y h;
              s1 = eatOrPop r1 r2 snakeX snakeY s;
              s2 = checkWalls snakeX snakeY s1;
              s3 = s2\<lparr>snake := newHead (snakeDir s2) snakeX snakeY # snake s2\<rparr>
          in Inr (snakeStrikesSelf s3))"

subsection \<open>The page as a whole\<close>

text \<open>
  Loading the script (lines 39 to 132) leaves this state; \<open>r1\<close> and \<open>r2\<close> are the two
  random numbers of the first \<^verbatim>\<open>generateFoodCoords()\<close>.
\<close>

definition initial :: "rat \<Rightarrow> rat \<Rightarrow> page" where
  "initial r1 r2 =
     (let (ret, ls) = addEventListener ''keydown'' Direction []
      in \<lparr>snake = [\<lparr>x = 9 * boxSidePxls, y = 10 * boxSidePxls\<rparr>],
          game = None,
          snakeDir = None,
          score = 0,
          foodCoords = generateFoodCoords r1 r2,
          gameFrameRateHz = 10,
          keyDownListener = ret,
          groundImgComplete = False,
          foodImgComplete = False,
          timers = [],
          timerCount = 0,
          listeners = ls,
          messageLog = []\<rparr>)"

text \<open>The slider's \<^verbatim>\<open>onchange\<close> (lines 96 to 101); \<open>v\<close> is \<^verbatim>\<open>speedSlider.value\<close>.\<close>

definition speedSlider_onchange :: "int \<Rightarrow> page \<Rightarrow> page" where
  "speedSlider_onchange v s =
     tryStartingGame (stopGame None (s\<lparr>gameFrameRateHz := 25 - v\<rparr>))"

text \<open>
  What the browser can do to the page: finish loading an image (the \<^verbatim>\<open>complete\<close> flag
  is set, then \<^verbatim>\<open>imageLoaded\<close> runs, lines 47 to 52), fire a timer that is still running,
  deliver a key press to the listeners registered for \<^verbatim>\<open>keydown\<close>, move the slider. An
  exception in a callback ends that callback only.
\<close>

datatype event =
    Load image
  | Interval nat rat rat
  | KeyDown int
  | SliderChange int

fun runListener :: "int \<Rightarrow> string \<times> callback \<Rightarrow> page \<Rightarrow> page" where
  "runListener code (ty, Direction) s = (if ty = ''keydown'' then direction code s else s)"

definition fire :: "event \<Rightarrow> page \<Rightarrow> page" where
  "fire e s =
     (case e of
        Load GroundImg \<Rightarrow> tryStartingGame (s\<lparr>groundImgComplete := True\<rparr>)
      | Load FoodImg \<Rightarrow> tryStartingGame (s\<lparr>foodImgComplete := True\<rparr>)
      | Interval h r1 r2 \<Rightarrow>
          if h \<in> fst ` set (timers s)
          then (case drawGame r1 r2 s of Inl _ \<Rightarrow> s | Inr s' \<Rightarrow> s')
          else s
      | KeyDown code \<Rightarrow> fold (runListener code) (listeners s) s
      | SliderChange v \<Rightarrow> speedSlider_onchange v s)"

fun run :: "event list \<Rightarrow> page \<Rightarrow> page" where
  "run [] s = s"
| "run (e # es) s = run es (fire e s)"

inductive reachable :: "page \<Rightarrow> bool" where
  loaded: "reachable (initial r1 r2)"
| fired: "reachable s \<Longrightarrow> reachable (fire e s)"

text \<open>The writes to the message header made between two states.\<close>

definition tickMessages :: "page \<Rightarrow> page \<Rightarrow> (string \<times> string) list" where
  "tickMessages s s' = drop (length (messageLog s)) (messageLog s')"

subsection \<open>States the page can be in\<close>

text \<open>
  Every state the page reaches has a snake with a head, has \<^verbatim>\<open>undefined\<close> in
  \<^verbatim>\<open>keyDownListener\<close>, has \<^verbatim>\<open>direction\<close> registered for \<^verbatim>\<open>keydown\<close>, and has at most
  one timer running, the one \<open>game\<close> names.
\<close>

definition wellFormed :: "page \<Rightarrow> bool" where
  "wellFormed s =
     (snake s \<noteq> [] \<and> keyDownListener s = None \<and> listeners s = [(''keydown'', Direction)] \<and>
      game s \<noteq> Some 0 \<and>
      map fst (timers s) = (case game s of None \<Rightarrow> [] | Some g \<Rightarrow> [g]))"

subsection \<open>Three states of a played game\<close>

text \<open>
  The first food falls on the snake's starting cell and both images load: the game runs,
  no key has been pressed, and the head lies on the food (\<open>startedOnFood\<close>).
  In the other two the player then presses the left arrow, and the snake eats twice
  and walks west for six more ticks: in \<open>westApproach\<close> its head is in the westmost
  column of the arena. One tick later the head is one cell outside; the
  player then presses up and right, which turns the snake back onto itself:
  \<open>westWallState\<close>.
\<close>

definition startedOnFood :: page where
  "startedOnFood = run [Load GroundImg, Load FoodImg] (initial (1 / 2) (1 / 2))"

definition westApproach :: page where
  "westApproach =
     run [Load GroundImg, Load FoodImg, KeyDown 37,
          Interval 1 (7 / 16) (1 / 2), Interval 1 (1 / 2) (1 / 2),
          Interval 1 0 0, Interval 1 0 0, Interval 1 0 0,
          Interval 1 0 0, Interval 1 0 0, Interval 1 0 0]
       (initial (1 / 2) (1 / 2))"

definition westWallState :: page where
  "westWallState = run [Interval 1 0 0, KeyDown 38, KeyDown 39] westApproach"

section \<open>Properties\<close>

subsection \<open>The rounding at work\<close>

text \<open>
  The decimal fraction \<open>0.1\<close> becomes the binary64 value every JavaScript engine prints
  as \<open>0.1000000000000000055511151231257827\<close>; integers and halves are kept; a value
  halfway between two neighbours goes to the one with the even significand.
\<close>

lemma fl_examples:
  "fl (1 / 10) = 3602879701896397 / 2 ^ 55 \<and>
   fl 18 = 18 \<and>
   fl (17 / 2) = 17 / 2 \<and>
   fl (- (1 / 3)) = - (6004799503160661 / 2 ^ 54) \<and>
   fl (2 ^ 53 + 1) = 2 ^ 53 \<and>
   fl (2 ^ 53 + 3) = 2 ^ 53 + 4"
  by code_simp

text \<open>
  \<open>binade\<close> finds the power of two at or below a positive value, so \<open>fl\<close> rounds to a
  multiple of the right unit; \<open>fl\<close> never rounds across a value of the grid it rounds
  to, and is monotone on the non-negative rationals. A binary64 value below one is at
  most \<open>1 - 2^-53\<close>, and the next one down is \<open>1 - 2^-52\<close>.
\<close>

lemma bitLength_pos: "0 < n \<Longrightarrow> 0 < bitLength n"
  by (subst bitLength.simps) simp

lemma bitLength_bounds:
  "0 < n \<Longrightarrow> 2 ^ (bitLength n - 1) \<le> n \<and> n < 2 ^ bitLength n"
proof (induction n rule: bitLength.induct)
  case (1 n)
  show ?case
  proof (cases "n div 2 \<le> 0")
    case True
    with "1.prems" have "n = 1" by linarith
    then show ?thesis
      by (simp add: bitLength.simps [of 1] bitLength.simps [of 0])
  next
    case False
    then have pos: "0 < n div 2" by simp
    let ?k = "bitLength (n div 2)"
    have ih: "2 ^ (?k - 1) \<le> n div 2 \<and> n div 2 < 2 ^ ?k"
      using "1.IH" "1.prems" pos by simp
    have k: "0 < ?k" using pos by (rule bitLength_pos)
    have bl: "bitLength n = Suc ?k"
      using "1.prems" by (subst bitLength.simps) simp
    have p: "(2::int) ^ ?k = 2 * 2 ^ (?k - 1)"
      using k by (cases ?k) simp_all
    have "2 ^ ?k \<le> n" using ih p by linarith
    moreover have "n < 2 * 2 ^ ?k" using ih by linarith
    ultimately show ?thesis by (simp add: bl)
  qed
qed


lemma binade_bounds:
  assumes "0 < a"
  shows "2 powi binade a \<le> a \<and> a < 2 powi (binade a + 1)"
proof (cases "1 \<le> a")
  case True
  let ?n = "\<lfloor>a\<rfloor>"
  let ?k = "bitLength ?n"
  have n: "0 < ?n" using True by simp
  have k: "0 < ?k" using n by (rule bitLength_pos)
  have b: "2 ^ (?k - 1) \<le> ?n \<and> ?n < 2 ^ ?k" using n by (rule bitLength_bounds)
  have e: "binade a = int (?k - 1)" using True k by (simp add: binade_def)
  have "(2::rat) ^ (?k - 1) \<le> of_int ?n"
    using b by (metis of_int_le_iff of_int_numeral of_int_power)
  also have "\<dots> \<le> a" by simp
  finally have lo: "2 powi binade a \<le> a" by (simp add: e)
  have "?n + 1 \<le> 2 ^ ?k" using b by simp
  then have "(of_int (?n + 1) :: rat) \<le> 2 ^ ?k"
    by (metis of_int_le_iff of_int_numeral of_int_power)
  moreover have "a < of_int (?n + 1)" by linarith
  ultimately have "a < 2 ^ ?k" by linarith
  moreover have "binade a + 1 = int ?k" using e k by simp
  ultimately have hi: "a < 2 powi (binade a + 1)" by simp
  show ?thesis using lo hi by simp
next
  case False
  let ?n = "\<lceil>1 / a\<rceil> - 1"
  let ?k = "bitLength ?n"
  have ia: "1 < 1 / a" using False assms by simp
  then have "2 \<le> \<lceil>1 / a\<rceil>" by linarith
  then have n: "0 < ?n" by simp
  have k: "0 < ?k" using n by (rule bitLength_pos)
  have b: "2 ^ (?k - 1) \<le> ?n \<and> ?n < 2 ^ ?k" using n by (rule bitLength_bounds)
  have e: "binade a = - int ?k" using False by (simp add: binade_def)
  have "\<lceil>1 / a\<rceil> \<le> 2 ^ ?k" using b by simp
  then have "(of_int \<lceil>1 / a\<rceil> :: rat) \<le> 2 ^ ?k"
    by (metis of_int_le_iff of_int_numeral of_int_power)
  then have "1 / a \<le> 2 ^ ?k" by linarith
  then have "1 \<le> 2 ^ ?k * a" using assms by (simp add: field_simps)
  then have lo: "2 powi binade a \<le> a"
    by (simp add: e power_int_minus field_simps)
  have "(2::rat) ^ (?k - 1) \<le> of_int ?n"
    using b by (metis of_int_le_iff of_int_numeral of_int_power)
  moreover have "of_int ?n < 1 / a" by linarith
  ultimately have "(2::rat) ^ (?k - 1) < 1 / a" by linarith
  then have "a * 2 ^ (?k - 1) < 1" using assms by (simp add: field_simps)
  moreover have "binade a + 1 = - int (?k - 1)" using e k by simp
  ultimately have hi: "a < 2 powi (binade a + 1)"
    by (simp add: power_int_minus field_simps)
  show ?thesis using lo hi by simp
qed

lemma two_powi_less_imp: "(2::rat) powi m < 2 powi n \<Longrightarrow> m < n"
proof (rule ccontr)
  assume a: "(2::rat) powi m < 2 powi n" and "\<not> m < n"
  then have "n \<le> m" by simp
  then have "(2::rat) powi n \<le> 2 powi m" by (rule power_int_increasing) simp
  with a show False by simp
qed

lemma binade_unique:
  assumes "2 powi e \<le> a" and "a < 2 powi (e + 1)"
  shows "binade a = e"
proof -
  have pos: "0 < a" using assms(1) zero_less_power_int [of "2::rat" e] by linarith
  note b = binade_bounds [OF pos]
  have "(2::rat) powi e < 2 powi (binade a + 1)" using assms(1) b by linarith
  then have 1: "e < binade a + 1"
    by (rule two_powi_less_imp)
  have "(2::rat) powi binade a < 2 powi (e + 1)" using assms(2) b by linarith
  then have 2: "binade a < e + 1"
    by (rule two_powi_less_imp)
  show ?thesis using 1 2 by simp
qed

lemma binade_mono:
  assumes "0 < a" and "a \<le> b"
  shows "binade a \<le> binade b"
proof -
  have "0 < b" using assms by simp
  then have "b < 2 powi (binade b + 1)" using binade_bounds by blast
  moreover have "2 powi binade a \<le> a" using binade_bounds [OF assms(1)] by blast
  ultimately have "(2::rat) powi binade a < 2 powi (binade b + 1)" using assms(2) by linarith
  then have "binade a < binade b + 1"
    by (rule two_powi_less_imp)
  then show ?thesis by simp
qed

lemma roundTiesToEven_bounds: "\<lfloor>q\<rfloor> \<le> roundTiesToEven q \<and> roundTiesToEven q \<le> \<lfloor>q\<rfloor> + 1"
  by (simp add: roundTiesToEven_def Let_def)

lemma roundTiesToEven_of_int [simp]: "roundTiesToEven (of_int m) = m"
  by (simp add: roundTiesToEven_def)

lemma roundTiesToEven_le:
  assumes "q \<le> of_int m"
  shows "roundTiesToEven q \<le> m"
proof (cases "q = of_int m")
  case True
  then show ?thesis by simp
next
  case False
  then have "q < of_int m" using assms by simp
  then have "\<lfloor>q\<rfloor> < m" by (simp add: floor_less_iff)
  then show ?thesis using roundTiesToEven_bounds [of q] by linarith
qed

lemma roundTiesToEven_ge:
  assumes "of_int m \<le> q"
  shows "m \<le> roundTiesToEven q"
proof -
  have "m \<le> \<lfloor>q\<rfloor>" using assms by (simp add: le_floor_iff)
  then show ?thesis using roundTiesToEven_bounds [of q] by linarith
qed

lemma roundTiesToEven_mono:
  assumes "p \<le> q"
  shows "roundTiesToEven p \<le> roundTiesToEven q"
proof (cases "\<lfloor>p\<rfloor> = \<lfloor>q\<rfloor>")
  case True
  then have "p - of_int \<lfloor>p\<rfloor> \<le> q - of_int \<lfloor>q\<rfloor>" using assms by simp
  then show ?thesis
    using True by (auto simp add: roundTiesToEven_def Let_def)
next
  case False
  moreover have "\<lfloor>p\<rfloor> \<le> \<lfloor>q\<rfloor>" using assms by (rule floor_mono)
  ultimately have "\<lfloor>p\<rfloor> + 1 \<le> \<lfloor>q\<rfloor>" by simp
  then show ?thesis
    using roundTiesToEven_bounds [of p] roundTiesToEven_bounds [of q] by linarith
qed


lemma fl_pos:
  "0 < v \<Longrightarrow>
   fl v = of_int (roundTiesToEven (v / 2 powi (binade v - 52))) * 2 powi (binade v - 52)"
  by (simp add: fl_def Let_def)

lemma fl_nonneg:
  assumes "0 \<le> v"
  shows "0 \<le> fl v"
proof (cases "v = 0")
  case True
  then show ?thesis by (simp add: fl_def)
next
  case False
  then have pos: "0 < v" using assms by simp
  have "0 \<le> v / 2 powi (binade v - 52)" using pos by simp
  then have "0 \<le> roundTiesToEven (v / 2 powi (binade v - 52))"
    using roundTiesToEven_ge [of 0] by simp
  then show ?thesis by (simp add: fl_pos [OF pos])
qed

lemma grid_multiple:
  assumes "e \<le> j"
  shows "of_int m * 2 powi j = (of_int (m * 2 ^ nat (j - e)) :: rat) * 2 powi e"
proof -
  have "(2::rat) powi j = 2 powi ((j - e) + e)" by simp
  also have "\<dots> = 2 powi (j - e) * 2 powi e" by (rule power_int_add) simp
  also have "2 powi (j - e) = (2::rat) ^ nat (j - e)"
    using assms by (simp add: power_int_nonneg_exp)
  finally show ?thesis by simp
qed

lemma fl_le_grid:
  assumes "0 < v" and "v \<le> of_int m * 2 powi j" and "binade v - 52 \<le> j"
  shows "fl v \<le> of_int m * 2 powi j"
proof -
  let ?u = "(2::rat) powi (binade v - 52)"
  let ?M = "m * 2 ^ nat (j - (binade v - 52))"
  have u: "0 < ?u" by simp
  have g: "of_int m * 2 powi j = of_int ?M * ?u"
    using assms(3) by (rule grid_multiple)
  have "v / ?u \<le> of_int ?M"
    using assms(2) u unfolding g by (simp add: field_simps)
  then have "roundTiesToEven (v / ?u) \<le> ?M" by (rule roundTiesToEven_le)
  then have "(of_int (roundTiesToEven (v / ?u)) :: rat) \<le> of_int ?M" by (simp only: of_int_le_iff)
  then have "of_int (roundTiesToEven (v / ?u)) * ?u \<le> of_int ?M * ?u"
    using u by (simp only: mult_le_cancel_right_pos)
  then show ?thesis unfolding g fl_pos [OF assms(1)] .
qed

lemma fl_ge_grid:
  assumes "0 < v" and "of_int m * 2 powi j \<le> v" and "binade v - 52 \<le> j"
  shows "of_int m * 2 powi j \<le> fl v"
proof -
  let ?u = "(2::rat) powi (binade v - 52)"
  let ?M = "m * 2 ^ nat (j - (binade v - 52))"
  have u: "0 < ?u" by simp
  have g: "of_int m * 2 powi j = of_int ?M * ?u"
    using assms(3) by (rule grid_multiple)
  have "of_int ?M \<le> v / ?u"
    using assms(2) u unfolding g by (simp add: field_simps)
  then have "?M \<le> roundTiesToEven (v / ?u)" by (rule roundTiesToEven_ge)
  then have "(of_int ?M :: rat) \<le> of_int (roundTiesToEven (v / ?u))" by (simp only: of_int_le_iff)
  then have "of_int ?M * ?u \<le> of_int (roundTiesToEven (v / ?u)) * ?u"
    using u by (simp only: mult_le_cancel_right_pos)
  then show ?thesis unfolding g fl_pos [OF assms(1)] .
qed

lemma fl_mono:
  assumes "0 \<le> v" and "v \<le> w"
  shows "fl v \<le> fl w"
proof (cases "v = 0")
  case True
  then show ?thesis using fl_nonneg [of w] assms by (simp add: fl_def)
next
  case False
  then have v: "0 < v" using assms by simp
  then have w: "0 < w" using assms by simp
  show ?thesis
  proof (cases "binade v = binade w")
    case True
    let ?u = "(2::rat) powi (binade w - 52)"
    have "v / ?u \<le> w / ?u" using assms(2) by (simp add: divide_right_mono)
    then have "roundTiesToEven (v / ?u) \<le> roundTiesToEven (w / ?u)"
      by (rule roundTiesToEven_mono)
    then have "(of_int (roundTiesToEven (v / ?u)) :: rat) * ?u \<le> of_int (roundTiesToEven (w / ?u)) * ?u"
      by (simp only: of_int_le_iff mult_le_cancel_right_pos zero_less_power_int zero_less_numeral)
    then show ?thesis
      unfolding fl_pos [OF v] fl_pos [OF w] True .
  next
    case False
    then have lt: "binade v + 1 \<le> binade w"
      using binade_mono [OF v assms(2)] by simp
    have a: "v \<le> of_int 1 * 2 powi (binade v + 1)"
      using binade_bounds [OF v] by simp
    have "fl v \<le> of_int 1 * 2 powi (binade v + 1)"
      by (rule fl_le_grid [OF v a]) simp
    also have "\<dots> \<le> of_int 1 * 2 powi binade w"
      using lt by (simp add: power_int_increasing del: power_int_add_numeral power_int_add_numeral2)
    also have "\<dots> \<le> fl w"
    proof (rule fl_ge_grid [OF w])
      show "of_int 1 * 2 powi binade w \<le> w" using binade_bounds [OF w] by simp
      show "binade w - 52 \<le> binade w" by simp
    qed
    finally show ?thesis .
  qed
qed

lemma binary64_below_one:
  assumes "fl r = r" and "0 \<le> r" and "r < 1"
  shows "r \<le> 1 - 1 / 2 ^ 53" and "r \<noteq> 1 - 1 / 2 ^ 53 \<Longrightarrow> r \<le> 1 - 1 / 2 ^ 52"
proof -
  have "r \<le> 1 - 1 / 2 ^ 53 \<and> (r \<noteq> 1 - 1 / 2 ^ 53 \<longrightarrow> r \<le> 1 - 1 / 2 ^ 52)"
  proof (cases "r < 1 / 2")
    case True
    then show ?thesis by simp
  next
    case False
    then have h: "1 / 2 \<le> r" by simp
    then have pos: "0 < r" by simp
    have "binade r = - 1"
      using h assms(3) by (intro binade_unique) (simp_all add: power_int_minus)
    then have "fl r = of_int (roundTiesToEven (r / 2 powi (- 53))) * 2 powi (- 53)"
      by (simp add: fl_pos [OF pos])
    then obtain n :: int where n: "r = of_int n / 2 ^ 53"
      using assms(1) by (simp add: power_int_minus field_simps)
    then have "(of_int n :: rat) < 2 ^ 53" using assms(3) by simp
    then have "(of_int n :: rat) < of_int (2 ^ 53)" by simp
    then have lt: "n < 2 ^ 53" by (simp only: of_int_less_iff)
    then have "n \<le> 2 ^ 53 - 1" by simp
    then have "(of_int n :: rat) \<le> of_int (2 ^ 53 - 1)" by (simp only: of_int_le_iff)
    then have 1: "r \<le> 1 - 1 / 2 ^ 53" unfolding n by (simp add: field_simps)
    have 2: "r \<le> 1 - 1 / 2 ^ 52" if "r \<noteq> 1 - 1 / 2 ^ 53"
    proof -
      have "n \<noteq> 2 ^ 53 - 1"
      proof
        assume "n = 2 ^ 53 - 1"
        then have "r = 1 - 1 / 2 ^ 53" unfolding n by (simp add: field_simps)
        with that show False by simp
      qed
      then have "n \<le> 2 ^ 53 - 2" using lt by simp
      then have "(of_int n :: rat) \<le> of_int (2 ^ 53 - 2)" by (simp only: of_int_le_iff)
      then show ?thesis unfolding n by (simp add: field_simps)
    qed
    show ?thesis using 1 2 by blast
  qed
  then show "r \<le> 1 - 1 / 2 ^ 53" and "r \<noteq> 1 - 1 / 2 ^ 53 \<Longrightarrow> r \<le> 1 - 1 / 2 ^ 52"
    by blast+
qed


lemma fl_1: "fl 1 = 1"
  by code_simp

lemma fl_3: "fl 3 = 3"
  by code_simp

lemma fl_column_top:
  "fl ((1 - 1 / 2 ^ 53) * 17) = 17 - 1 / 2 ^ 48"
  "fl (17 - 1 / 2 ^ 48 + 1) = 18 - 1 / 2 ^ 48"
  by code_simp code_simp

lemma fl_row_top:
  "fl ((1 - 1 / 2 ^ 53) * 15) = 15 - 1 / 2 ^ 49"
  "fl (15 - 1 / 2 ^ 49 + 3) = 18"
  by code_simp code_simp

lemma fl_row_next:
  "fl ((1 - 1 / 2 ^ 52) * 15) = 15 - 1 / 2 ^ 48"
  "fl (15 - 1 / 2 ^ 48 + 3) = 18 - 1 / 2 ^ 48"
  by code_simp code_simp

lemma food_column:
  assumes "0 \<le> r" and "r \<le> 1 - 1 / 2 ^ 53"
  shows "1 \<le> \<lfloor>fl (fl (r * 17) + 1)\<rfloor> \<and> \<lfloor>fl (fl (r * 17) + 1)\<rfloor> \<le> 17"
proof -
  have a0: "0 \<le> fl (r * 17)" using assms(1) by (intro fl_nonneg) simp
  have "fl (r * 17) \<le> fl ((1 - 1 / 2 ^ 53) * 17)"
    using assms by (intro fl_mono) simp_all
  then have a1: "fl (r * 17) \<le> 17 - 1 / 2 ^ 48" by (simp only: fl_column_top)
  have "fl 1 \<le> fl (fl (r * 17) + 1)" using a0 by (intro fl_mono) simp_all
  then have b0: "1 \<le> fl (fl (r * 17) + 1)" by (simp only: fl_1)
  have "fl (fl (r * 17) + 1) \<le> fl (17 - 1 / 2 ^ 48 + 1)"
    using a0 a1 by (intro fl_mono) simp_all
  then have b1: "fl (fl (r * 17) + 1) \<le> 18 - 1 / 2 ^ 48" by (simp only: fl_column_top)
  have "1 \<le> \<lfloor>fl (fl (r * 17) + 1)\<rfloor>" using b0 by (simp add: le_floor_iff)
  moreover have "fl (fl (r * 17) + 1) < 18" using b1 by simp
  then have "\<lfloor>fl (fl (r * 17) + 1)\<rfloor> < 18" by (simp add: floor_less_iff)
  ultimately show ?thesis by simp
qed

lemma food_row:
  assumes "0 \<le> r" and "r \<le> c" and "fl (c * 15) = a" and "fl (a + 3) = b"
  shows "3 \<le> \<lfloor>fl (fl (r * 15) + 3)\<rfloor>"
    and "fl (fl (r * 15) + 3) \<le> b"
proof -
  have a0: "0 \<le> fl (r * 15)" using assms(1) by (intro fl_nonneg) simp
  have "fl (r * 15) \<le> fl (c * 15)"
    using assms(1,2) by (intro fl_mono) simp_all
  then have a1: "fl (r * 15) \<le> a" by (simp only: assms(3))
  have "fl 3 \<le> fl (fl (r * 15) + 3)" using a0 by (intro fl_mono) simp_all
  then have "3 \<le> fl (fl (r * 15) + 3)" by (simp only: fl_3)
  then show "3 \<le> \<lfloor>fl (fl (r * 15) + 3)\<rfloor>" by (simp add: le_floor_iff)
  have "fl (fl (r * 15) + 3) \<le> fl (a + 3)"
    using a0 a1 by (intro fl_mono) simp_all
  then show "fl (fl (r * 15) + 3) \<le> b" by (simp only: assms(4))
qed

subsection \<open>Field by field: what the helpers change\<close>

lemmas game_constants =
  arenaWidthBoxes_def arenaHeightBoxes_def arenaX0Boxes_def arenaY0Boxes_def boxSidePxls_def

lemma setGameMessage_fields [simp]:
  "snake (setGameMessage m c s) = snake s"
  "game (setGameMessage m c s) = game s"
  "snakeDir (setGameMessage m c s) = snakeDir s"
  "score (setGameMessage m c s) = score s"
  "foodCoords (setGameMessage m c s) = foodCoords s"
  "keyDownListener (setGameMessage m c s) = keyDownListener s"
  "timers (setGameMessage m c s) = timers s"
  "listeners (setGameMessage m c s) = listeners s"
  by (simp_all add: setGameMessage_def)

lemma stopGame_fields [simp]:
  "snake (stopGame r s) = snake s"
  "game (stopGame r s) = None"
  "snakeDir (stopGame r s) = snakeDir s"
  "score (stopGame r s) = score s"
  "foodCoords (stopGame r s) = foodCoords s"
  "keyDownListener (stopGame r s) = keyDownListener s"
  by (simp_all add: stopGame_def clearInterval_def setGameMessage_def Let_def
        split: option.splits)

lemma stopGame_messageLog [simp]:
  "messageLog (stopGame (Some m) s) = messageLog s @ [(m, ''red'')]"
  "messageLog (stopGame None s) = messageLog s @ [(''unknown'', ''red'')]"
  by (simp_all add: stopGame_def clearInterval_def setGameMessage_def Let_def
        split: option.splits)

lemma strikeLoop_fields [simp]:
  "snake (strikeLoop hd0 body s) = snake s"
  "snakeDir (strikeLoop hd0 body s) = snakeDir s"
  "score (strikeLoop hd0 body s) = score s"
  "foodCoords (strikeLoop hd0 body s) = foodCoords s"
  "keyDownListener (strikeLoop hd0 body s) = keyDownListener s"
  by (induction body arbitrary: s) simp_all

lemma strikeLoop_messageLog:
  "messageLog (strikeLoop hd0 body s) =
     messageLog s @ replicate (length (filter (\<lambda>b. x hd0 = x b \<and> y hd0 = y b) body))
       (''Oh no! Snake ate itself!'', ''red'')"
  by (induction body arbitrary: s) (simp_all add: replicate_app_Cons_same)

lemma strikeLoop_game:
  "game (strikeLoop hd0 body s) =
     (if \<exists>b \<in> set body. x hd0 = x b \<and> y hd0 = y b then None else game s)"
  by (induction body arbitrary: s) auto

lemma eatOrPop_fields [simp]:
  "snakeDir (eatOrPop r1 r2 a b s) = snakeDir s"
  "game (eatOrPop r1 r2 a b s) = game s"
  "messageLog (eatOrPop r1 r2 a b s) = messageLog s"
  "keyDownListener (eatOrPop r1 r2 a b s) = keyDownListener s"
  "listeners (eatOrPop r1 r2 a b s) = listeners s"
  "timers (eatOrPop r1 r2 a b s) = timers s"
  by (simp_all add: eatOrPop_def)

lemma eatOrPop_snake:
  "snake (eatOrPop r1 r2 a b s) =
     (if a = x (foodCoords s) \<and> b = y (foodCoords s) then snake s else butlast (snake s))"
  by (simp add: eatOrPop_def)

lemma eatOrPop_score:
  "score (eatOrPop r1 r2 a b s) =
     (if a = x (foodCoords s) \<and> b = y (foodCoords s) then score s + 1 else score s)"
  by (simp add: eatOrPop_def)

lemma eatOrPop_foodCoords:
  "foodCoords (eatOrPop r1 r2 a b s) =
     (if a = x (foodCoords s) \<and> b = y (foodCoords s)
      then generateFoodCoords r1 r2 else foodCoords s)"
  by (simp add: eatOrPop_def)

lemma checkWalls_fields [simp]:
  "snake (checkWalls a b s) = snake s"
  "snakeDir (checkWalls a b s) = snakeDir s"
  "score (checkWalls a b s) = score s"
  "foodCoords (checkWalls a b s) = foodCoords s"
  "keyDownListener (checkWalls a b s) = keyDownListener s"
  by (simp_all add: checkWalls_def)

lemma checkWalls_game:
  "game (checkWalls a b s) =
     (if isSnakeWest a \<or> isSnakeEast a \<or> isSnakeNorth b \<or> isSnakeSouth b then None else game s)"
  by (simp add: checkWalls_def)

lemma checkWalls_messageLog:
  "messageLog (checkWalls a b s) =
     messageLog s @
       (if isSnakeWest a \<or> isSnakeEast a \<or> isSnakeNorth b \<or> isSnakeSouth b
        then [(''Oh no! Snake ran into the wall and died!'', ''red'')] else [])"
  by (simp add: checkWalls_def)

lemma stopGame_timers:
  "timers (stopGame r s) =
     (case game s of None \<Rightarrow> timers s | Some g \<Rightarrow> filter (\<lambda>t. fst t \<noteq> g) (timers s))"
  by (simp add: stopGame_def clearInterval_def setGameMessage_def Let_def split: option.splits)

lemma stopGame_timers_subset: "set (timers (stopGame r s)) \<subseteq> set (timers s)"
  by (auto simp add: stopGame_timers split: option.splits)

lemma strikeLoop_timers_subset: "set (timers (strikeLoop hd0 body s)) \<subseteq> set (timers s)"
proof (induction body arbitrary: s)
  case Nil
  show ?case by simp
next
  case (Cons b body)
  show ?case
  proof (cases "x hd0 = x b \<and> y hd0 = y b")
    case True
    then have "set (timers (strikeLoop hd0 (b # body) s))
               \<subseteq> set (timers (stopGame (Some ''Oh no! Snake ate itself!'') s))"
      using Cons.IH by simp
    then show ?thesis using stopGame_timers_subset by blast
  next
    case False
    then show ?thesis using Cons.IH by auto
  qed
qed

lemma snakeStrikesSelf_Cons:
  "snake s = h # body \<Longrightarrow> snakeStrikesSelf s = strikeLoop h body s"
  by (cases body) (simp_all add: snakeStrikesSelf_def)

lemma snakeStrikesSelf_fields [simp]:
  "snake (snakeStrikesSelf s) = snake s"
  "snakeDir (snakeStrikesSelf s) = snakeDir s"
  "score (snakeStrikesSelf s) = score s"
  "foodCoords (snakeStrikesSelf s) = foodCoords s"
  "keyDownListener (snakeStrikesSelf s) = keyDownListener s"
  by (simp_all add: snakeStrikesSelf_def split: list.splits)

lemma drawGame_Cons:
  "snake s = h # t \<Longrightarrow>
   drawGame r1 r2 s =
     Inr (snakeStrikesSelf
           ((checkWalls (x h) (y h) (eatOrPop r1 r2 (x h) (y h) s))
              \<lparr>snake := newHead (snakeDir s) (x h) (y h)
                 # snake (eatOrPop r1 r2 (x h) (y h) s)\<rparr>))"
  by (simp add: drawGame_def Let_def)

lemma drawGame_total:
  "snake s = h # t \<Longrightarrow> \<exists>s'. drawGame r1 r2 s = Inr s'"
  by (simp add: drawGame_Cons)

lemma drawGame_snake:
  assumes "snake s = h # t" and "drawGame r1 r2 s = Inr s'"
  shows "snake s' = newHead (snakeDir s) (x h) (y h)
           # (if x h = x (foodCoords s) \<and> y h = y (foodCoords s) then snake s
              else butlast (snake s))"
  using assms by (auto simp add: drawGame_Cons eatOrPop_snake)

lemma drawGame_game:
  assumes "snake s = h # t" and "drawGame r1 r2 s = Inr s'"
  shows "game s' =
     (if isSnakeWest (x h) \<or> isSnakeEast (x h) \<or> isSnakeNorth (y h) \<or> isSnakeSouth (y h)
         \<or> (\<exists>b \<in> set (tl (snake s')). x (hd (snake s')) = x b \<and> y (hd (snake s')) = y b)
      then None else game s)"
proof -
  let ?s3 = "(checkWalls (x h) (y h) (eatOrPop r1 r2 (x h) (y h) s))
              \<lparr>snake := newHead (snakeDir s) (x h) (y h) # snake (eatOrPop r1 r2 (x h) (y h) s)\<rparr>"
  have s': "s' = snakeStrikesSelf ?s3"
    using assms by (simp add: drawGame_Cons)
  have sn: "snake ?s3 = newHead (snakeDir s) (x h) (y h) # snake (eatOrPop r1 r2 (x h) (y h) s)"
    by simp
  have g3: "game ?s3 =
     (if isSnakeWest (x h) \<or> isSnakeEast (x h) \<or> isSnakeNorth (y h) \<or> isSnakeSouth (y h)
      then None else game s)"
    by (simp add: checkWalls_game)
  have "snake s' = newHead (snakeDir s) (x h) (y h) # snake (eatOrPop r1 r2 (x h) (y h) s)"
    unfolding s' by simp
  then show ?thesis
    unfolding s' snakeStrikesSelf_Cons [OF sn] strikeLoop_game g3 by auto
qed

lemma drawGame_timers:
  assumes "snake s = h # t" and "drawGame r1 r2 s = Inr s'"
  shows "set (timers s') \<subseteq> set (timers s)"
proof -
  let ?s1 = "eatOrPop r1 r2 (x h) (y h) s"
  let ?s3 = "(checkWalls (x h) (y h) ?s1)
              \<lparr>snake := newHead (snakeDir s) (x h) (y h) # snake ?s1\<rparr>"
  have s': "s' = snakeStrikesSelf ?s3"
    using assms by (simp add: drawGame_Cons)
  have sn: "snake ?s3 = newHead (snakeDir s) (x h) (y h) # snake ?s1"
    by simp
  have "set (timers s') \<subseteq> set (timers ?s3)"
    unfolding s' snakeStrikesSelf_Cons [OF sn] by (rule strikeLoop_timers_subset)
  moreover have "set (timers ?s3) \<subseteq> set (timers s)"
    using stopGame_timers_subset [of _ ?s1] by (simp add: checkWalls_def)
  ultimately show ?thesis by blast
qed

lemma drawGame_unchanged:
  assumes "snake s = h # t" and "drawGame r1 r2 s = Inr s'"
  shows "snakeDir s' = snakeDir s" and "keyDownListener s' = keyDownListener s"
    and "score s' = (if x h = x (foodCoords s) \<and> y h = y (foodCoords s) then score s + 1 else score s)"
    and "foodCoords s' = (if x h = x (foodCoords s) \<and> y h = y (foodCoords s)
                          then generateFoodCoords r1 r2 else foodCoords s)"
  using assms by (auto simp add: drawGame_Cons eatOrPop_score eatOrPop_foodCoords)

lemma drawGame_messageLog:
  assumes "snake s = h # t" and "drawGame r1 r2 s = Inr s'"
  shows "messageLog s' =
     messageLog s @
     (if isSnakeWest (x h) \<or> isSnakeEast (x h) \<or> isSnakeNorth (y h) \<or> isSnakeSouth (y h)
      then [(''Oh no! Snake ran into the wall and died!'', ''red'')] else [])
     @ replicate
         (length (filter (\<lambda>b. x (hd (snake s')) = x b \<and> y (hd (snake s')) = y b) (tl (snake s'))))
         (''Oh no! Snake ate itself!'', ''red'')"
proof -
  let ?s1 = "eatOrPop r1 r2 (x h) (y h) s"
  let ?s3 = "(checkWalls (x h) (y h) ?s1)\<lparr>snake := newHead (snakeDir s) (x h) (y h) # snake ?s1\<rparr>"
  have s': "s' = snakeStrikesSelf ?s3"
    using assms by (simp add: drawGame_Cons)
  have sn: "snake ?s3 = newHead (snakeDir s) (x h) (y h) # snake ?s1"
    by simp
  have "messageLog s' =
          messageLog ?s3 @ replicate
            (length (filter (\<lambda>b. x (newHead (snakeDir s) (x h) (y h)) = x b
                               \<and> y (newHead (snakeDir s) (x h) (y h)) = y b)
                      (snake ?s1)))
            (''Oh no! Snake ate itself!'', ''red'')"
    unfolding s' snakeStrikesSelf_Cons [OF sn] by (rule strikeLoop_messageLog)
  moreover have "snake s' = newHead (snakeDir s) (x h) (y h) # snake ?s1"
    unfolding s' by simp
  moreover have "messageLog ?s3 = messageLog s @
       (if isSnakeWest (x h) \<or> isSnakeEast (x h) \<or> isSnakeNorth (y h) \<or> isSnakeSouth (y h)
        then [(''Oh no! Snake ran into the wall and died!'', ''red'')] else [])"
    by (simp add: checkWalls_messageLog)
  ultimately show ?thesis
    by simp
qed

lemma drawGame_tickMessages:
  assumes "snake s = h # t" and "drawGame r1 r2 s = Inr s'"
  shows "tickMessages s s' =
     (if isSnakeWest (x h) \<or> isSnakeEast (x h) \<or> isSnakeNorth (y h) \<or> isSnakeSouth (y h)
      then [(''Oh no! Snake ran into the wall and died!'', ''red'')] else [])
     @ replicate
         (length (filter (\<lambda>b. x (hd (snake s')) = x b \<and> y (hd (snake s')) = y b) (tl (snake s'))))
         (''Oh no! Snake ate itself!'', ''red'')"
  unfolding tickMessages_def drawGame_messageLog [OF assms] by simp

lemma filter_length_pos: "(0 < length (filter P bs)) = (\<exists>b \<in> set bs. P b)"
  by (induction bs) auto

subsection \<open>States the page can be in: the invariant\<close>

lemma single_timer_cleared: "map fst ts = [g] \<Longrightarrow> filter (\<lambda>t. fst t \<noteq> g) ts = []"
  by (cases ts) auto

lemma wellFormed_stopGame:
  assumes "wellFormed s"
  shows "wellFormed (stopGame r s)"
    and "listeners (stopGame r s) = listeners s"
    and "timers (stopGame r s) = []"
  using assms
  by (auto simp add: wellFormed_def stopGame_def clearInterval_def setGameMessage_def
        removeEventListener_def Let_def single_timer_cleared split: option.splits)

lemma wellFormed_setGameMessage:
  "wellFormed s \<Longrightarrow> wellFormed (setGameMessage m c s)"
  by (simp add: wellFormed_def)

lemma wellFormed_tryStartingGame:
  assumes "wellFormed s"
  shows "wellFormed (tryStartingGame s)"
proof (cases "foodImgComplete s \<and> groundImgComplete s \<and> falsyHandle (game s)")
  case False
  then show ?thesis using assms by (auto simp add: tryStartingGame_def)
next
  case True
  then have "game s = None"
    using assms by (auto simp add: wellFormed_def falsyHandle_def split: option.splits)
  then show ?thesis
    using assms True
    by (simp add: wellFormed_def tryStartingGame_def setInterval_def setGameMessage_def Let_def)
qed

lemma direction_fields [simp]:
  "snake (direction code s) = snake s"
  "game (direction code s) = game s"
  "score (direction code s) = score s"
  "keyDownListener (direction code s) = keyDownListener s"
  "timers (direction code s) = timers s"
  "listeners (direction code s) = listeners s"
  by (simp_all add: direction_def Let_def)

lemma wellFormed_direction:
  "wellFormed s \<Longrightarrow> wellFormed (direction code s)"
  by (simp add: wellFormed_def)

lemma wellFormed_strikeLoop:
  "wellFormed s \<Longrightarrow> wellFormed (strikeLoop hd0 body s)"
proof (induction body arbitrary: s)
  case Nil
  then show ?case by simp
next
  case (Cons b body)
  show ?case
  proof (cases "x hd0 = x b \<and> y hd0 = y b")
    case True
    then show ?thesis
      using Cons.IH [OF wellFormed_stopGame(1) [OF Cons.prems]] by simp
  next
    case False
    then show ?thesis using Cons.IH [OF Cons.prems] by auto
  qed
qed

lemma wellFormed_drawGame:
  assumes "wellFormed s" and "drawGame r1 r2 s = Inr s'"
  shows "wellFormed s'"
proof -
  obtain h t where ht: "snake s = h # t"
    using assms(1) by (cases "snake s") (auto simp add: wellFormed_def)
  let ?s1 = "eatOrPop r1 r2 (x h) (y h) s"
  let ?s2 = "checkWalls (x h) (y h) ?s1"
  let ?s3 = "?s2\<lparr>snake := newHead (snakeDir s) (x h) (y h) # snake ?s1\<rparr>"
  have s': "s' = snakeStrikesSelf ?s3"
    using assms(2) ht by (simp add: drawGame_Cons)
  have sn: "snake ?s3 = newHead (snakeDir s) (x h) (y h) # snake ?s1"
    by simp
  have "wellFormed (?s1\<lparr>snake := snake s\<rparr>)"
    using assms(1) by (simp add: wellFormed_def eatOrPop_def)
  then have "wellFormed ((checkWalls (x h) (y h) (?s1\<lparr>snake := snake s\<rparr>)))"
    using wellFormed_stopGame(1) by (simp add: checkWalls_def)
  then have "wellFormed ?s3"
    by (auto simp add: wellFormed_def checkWalls_def stopGame_def clearInterval_def
          setGameMessage_def Let_def split: option.splits if_splits)
  then show ?thesis
    unfolding s' snakeStrikesSelf_Cons [OF sn] by (rule wellFormed_strikeLoop)
qed

lemma fold_runListener_single:
  "listeners s = [(''keydown'', Direction)] \<Longrightarrow> fold (runListener code) (listeners s) s = direction code s"
  by simp

lemma wellFormed_fire:
  assumes "wellFormed s"
  shows "wellFormed (fire e s)"
proof (cases e)
  case (Load i)
  have "wellFormed (s\<lparr>groundImgComplete := True\<rparr>)" "wellFormed (s\<lparr>foodImgComplete := True\<rparr>)"
    using assms by (simp_all add: wellFormed_def)
  then show ?thesis
    using Load wellFormed_tryStartingGame by (cases i) (simp_all add: fire_def)
next
  case (Interval g r1 r2)
  then show ?thesis
    using assms wellFormed_drawGame [OF assms]
    by (auto simp add: fire_def split: sum.splits)
next
  case (KeyDown code)
  have "listeners s = [(''keydown'', Direction)]"
    using assms by (simp add: wellFormed_def)
  then show ?thesis
    using KeyDown wellFormed_direction [OF assms] by (simp add: fire_def)
next
  case (SliderChange v)
  have "wellFormed (s\<lparr>gameFrameRateHz := 25 - v\<rparr>)"
    using assms by (simp add: wellFormed_def)
  then show ?thesis
    using SliderChange wellFormed_tryStartingGame wellFormed_stopGame(1)
    by (simp add: fire_def speedSlider_onchange_def)
qed

lemma wellFormed_initial: "wellFormed (initial r1 r2)"
  by (simp add: wellFormed_def initial_def addEventListener_def)

lemma reachable_wellFormed: "reachable s \<Longrightarrow> wellFormed s"
  by (induction rule: reachable.induct) (simp_all add: wellFormed_initial wellFormed_fire)

lemma reachable_run: "reachable s \<Longrightarrow> reachable (run es s)"
  by (induction es arbitrary: s) (simp_all add: reachable.fired)

lemma butlast_differs: "butlast (h # t) \<noteq> h # t"
proof
  assume e: "butlast (h # t) = h # t"
  have "length (butlast (h # t)) = length (h # t) - 1"
    by (rule length_butlast)
  then show False
    unfolding e by simp
qed

lemma drawGame_wall_timers:
  assumes "snake s = h # t" and "drawGame r1 r2 s = Inr s'"
    and "isSnakeWest (x h) \<or> isSnakeEast (x h) \<or> isSnakeNorth (y h) \<or> isSnakeSouth (y h)"
    and "game s = Some g"
  shows "g \<notin> fst ` set (timers s')"
proof -
  let ?s1 = "eatOrPop r1 r2 (x h) (y h) s"
  let ?s3 = "(checkWalls (x h) (y h) ?s1)\<lparr>snake := newHead (snakeDir s) (x h) (y h) # snake ?s1\<rparr>"
  have s': "s' = snakeStrikesSelf ?s3"
    using assms(1,2) by (simp add: drawGame_Cons)
  have sn: "snake ?s3 = newHead (snakeDir s) (x h) (y h) # snake ?s1"
    by simp
  have "set (timers s') \<subseteq> set (timers ?s3)"
    unfolding s' snakeStrikesSelf_Cons [OF sn] by (rule strikeLoop_timers_subset)
  moreover have "timers ?s3 = filter (\<lambda>t. fst t \<noteq> g) (timers s)"
    using assms(3,4) by (simp add: checkWalls_def stopGame_timers)
  ultimately show ?thesis by auto
qed

lemma strikeLoop_hit_timers:
  assumes "\<exists>b \<in> set body. x hd0 = x b \<and> y hd0 = y b" and "game s = Some g"
  shows "g \<notin> fst ` set (timers (strikeLoop hd0 body s))"
  using assms
proof (induction body arbitrary: s)
  case Nil
  then show ?case by simp
next
  case (Cons b body)
  show ?case
  proof (cases "x hd0 = x b \<and> y hd0 = y b")
    case True
    let ?s1 = "stopGame (Some ''Oh no! Snake ate itself!'') s"
    have "timers ?s1 = filter (\<lambda>t. fst t \<noteq> g) (timers s)"
      using Cons.prems(2) by (simp add: stopGame_timers)
    then have "g \<notin> fst ` set (timers ?s1)" by auto
    moreover have "set (timers (strikeLoop hd0 body ?s1)) \<subseteq> set (timers ?s1)"
      by (rule strikeLoop_timers_subset)
    ultimately have "g \<notin> fst ` set (timers (strikeLoop hd0 body ?s1))" by auto
    then show ?thesis using True by simp
  next
    case False
    then have "\<exists>b \<in> set body. x hd0 = x b \<and> y hd0 = y b"
      using Cons.prems(1) by auto
    then have "g \<notin> fst ` set (timers (strikeLoop hd0 body s))"
      using Cons.prems(2) by (rule Cons.IH)
    then show ?thesis using False by auto
  qed
qed

lemma drawGame_hit_timers:
  assumes "snake s = h # t" and "drawGame r1 r2 s = Inr s'"
    and "\<exists>b \<in> set (tl (snake s')). x (hd (snake s')) = x b \<and> y (hd (snake s')) = y b"
    and "game s = Some g"
  shows "g \<notin> fst ` set (timers s')"
proof (cases "isSnakeWest (x h) \<or> isSnakeEast (x h) \<or> isSnakeNorth (y h) \<or> isSnakeSouth (y h)")
  case True
  show ?thesis by (rule drawGame_wall_timers [OF assms(1,2) True assms(4)])
next
  case False
  let ?s1 = "eatOrPop r1 r2 (x h) (y h) s"
  let ?s3 = "(checkWalls (x h) (y h) ?s1)\<lparr>snake := newHead (snakeDir s) (x h) (y h) # snake ?s1\<rparr>"
  have s': "s' = snakeStrikesSelf ?s3"
    using assms(1,2) by (simp add: drawGame_Cons)
  have sn: "snake ?s3 = newHead (snakeDir s) (x h) (y h) # snake ?s1"
    by simp
  have sl: "s' = strikeLoop (newHead (snakeDir s) (x h) (y h)) (snake ?s1) ?s3"
    unfolding s' by (rule snakeStrikesSelf_Cons [OF sn])
  have "snake s' = newHead (snakeDir s) (x h) (y h) # snake ?s1"
    unfolding s' by simp
  then have hit: "\<exists>b \<in> set (snake ?s1). x (newHead (snakeDir s) (x h) (y h)) = x b
                    \<and> y (newHead (snakeDir s) (x h) (y h)) = y b"
    using assms(3) by simp
  have g3: "game ?s3 = Some g"
    using False assms(4) by (simp add: checkWalls_game)
  show ?thesis
    unfolding sl using hit g3 by (rule strikeLoop_hit_timers)
qed

subsection \<open>The three example states\<close>

lemma food_half: "generateFoodCoords (1 / 2) (1 / 2) = \<lparr>x = 288, y = 320\<rparr>"
  by code_simp

lemma westApproach_eval:
  "westApproach =
     \<lparr>snake = [\<lparr>x = 32, y = 320\<rparr>, \<lparr>x = 64, y = 320\<rparr>, \<lparr>x = 96, y = 320\<rparr>],
      game = Some 1, snakeDir = Some ''left'', score = 2,
      foodCoords = \<lparr>x = 288, y = 320\<rparr>, gameFrameRateHz = 10,
      keyDownListener = None, groundImgComplete = True,
      foodImgComplete = True, timers = [(1, 100)], timerCount = 1,
      listeners = [(''keydown'', Direction)],
      messageLog =
        [(''Press an arrow key to start moving!'', ''green''),
         (''Yum yum carrots!'', ''green'')]\<rparr>"
  by code_simp

lemma westWallState_eval:
  "westWallState =
     \<lparr>snake = [\<lparr>x = 0, y = 320\<rparr>, \<lparr>x = 32, y = 320\<rparr>, \<lparr>x = 64, y = 320\<rparr>],
      game = Some 1, snakeDir = Some ''right'', score = 2,
      foodCoords = \<lparr>x = 288, y = 320\<rparr>, gameFrameRateHz = 10,
      keyDownListener = None, groundImgComplete = True,
      foodImgComplete = True, timers = [(1, 100)], timerCount = 1,
      listeners = [(''keydown'', Direction)],
      messageLog =
        [(''Press an arrow key to start moving!'', ''green''),
         (''Yum yum carrots!'', ''green'')]\<rparr>"
  unfolding westWallState_def westApproach_eval by code_simp

lemma started_on_food_eval:
  "startedOnFood =
     \<lparr>snake = [\<lparr>x = 288, y = 320\<rparr>],
      game = Some 1, snakeDir = None, score = 0,
      foodCoords = \<lparr>x = 288, y = 320\<rparr>, gameFrameRateHz = 10,
      keyDownListener = None, groundImgComplete = True,
      foodImgComplete = True, timers = [(1, 100)], timerCount = 1,
      listeners = [(''keydown'', Direction)],
      messageLog = [(''Press an arrow key to start moving!'', ''green'')]\<rparr>"
  by code_simp

lemma reachable_westApproach: "reachable westApproach"
  unfolding westApproach_def by (rule reachable_run) (rule reachable.loaded)

lemma reachable_westWallState: "reachable westWallState"
  unfolding westWallState_def by (rule reachable_run) (rule reachable_westApproach)

section \<open>The claims\<close>

text \<open>
  C1. On a tick with a non-empty snake exactly one of two things happens. Either the head
  (as it is before the move) lies on the food: then the score goes up by one, new food is
  generated and no segment is removed. Or it does not: then the last segment is removed,
  and score and food stay as they are. So "the tail is dropped" and "the score is
  incremented and the food regenerated" never hold together and never fail together.
\<close>

theorem tick_drops_tail_or_eats:
  assumes "snake s = h # t"
  shows "\<exists>s'. drawGame r1 r2 s = Inr s' \<and>
     ((x h = x (foodCoords s) \<and> y h = y (foodCoords s) \<and>
         score s' = score s + 1 \<and> foodCoords s' = generateFoodCoords r1 r2 \<and>
         tl (snake s') = snake s)
      \<or>
      (\<not> (x h = x (foodCoords s) \<and> y h = y (foodCoords s)) \<and>
         score s' = score s \<and> foodCoords s' = foodCoords s \<and>
         tl (snake s') = butlast (snake s))) \<and>
     ((tl (snake s') = butlast (snake s)) \<noteq>
        (score s' = score s + 1 \<and> foodCoords s' = generateFoodCoords r1 r2))"
proof -
  obtain s' where d: "drawGame r1 r2 s = Inr s'"
    using drawGame_total [OF assms] by blast
  note sn = drawGame_snake [OF assms d]
  note un = drawGame_unchanged(3,4) [OF assms d]
  show ?thesis
  proof (cases "x h = x (foodCoords s) \<and> y h = y (foodCoords s)")
    case True
    then show ?thesis
      using d sn un assms butlast_differs [of h t] by simp
  next
    case False
    then show ?thesis
      using d sn un by auto
  qed
qed

theorem tick_drops_tail_or_eats_witness:
  "(\<exists>s'. drawGame (7 / 16) (1 / 2) (initial (1 / 2) (1 / 2)) = Inr s' \<and>
         score s' = 1 \<and> foodCoords s' = generateFoodCoords (7 / 16) (1 / 2) \<and>
         tl (snake s') = [\<lparr>x = 288, y = 320\<rparr>]) \<and>
   (\<exists>s'. drawGame 0 0 westApproach = Inr s' \<and>
         score s' = 2 \<and> foodCoords s' = \<lparr>x = 288, y = 320\<rparr> \<and>
         tl (snake s') = [\<lparr>x = 32, y = 320\<rparr>, \<lparr>x = 64, y = 320\<rparr>])"
proof
  have a: "snake (initial (1 / 2) (1 / 2)) = \<lparr>x = 288, y = 320\<rparr> # []"
    by (simp add: initial_def addEventListener_def boxSidePxls_def)
  have f: "foodCoords (initial (1 / 2) (1 / 2)) = \<lparr>x = 288, y = 320\<rparr>"
    by (simp add: initial_def addEventListener_def food_half)
  have c: "score (initial (1 / 2) (1 / 2)) = 0"
    by (simp add: initial_def addEventListener_def)
  show "\<exists>s'. drawGame (7 / 16) (1 / 2) (initial (1 / 2) (1 / 2)) = Inr s' \<and>
         score s' = 1 \<and> foodCoords s' = generateFoodCoords (7 / 16) (1 / 2) \<and>
         tl (snake s') = [\<lparr>x = 288, y = 320\<rparr>]"
    using tick_drops_tail_or_eats [OF a, of "7 / 16" "1 / 2"] by (auto simp add: a f c)
next
  have a: "snake westApproach = \<lparr>x = 32, y = 320\<rparr> # [\<lparr>x = 64, y = 320\<rparr>, \<lparr>x = 96, y = 320\<rparr>]"
    by (simp add: westApproach_eval)
  have f: "foodCoords westApproach = \<lparr>x = 288, y = 320\<rparr>" and c: "score westApproach = 2"
    by (simp_all add: westApproach_eval)
  show "\<exists>s'. drawGame 0 0 westApproach = Inr s' \<and>
         score s' = 2 \<and> foodCoords s' = \<lparr>x = 288, y = 320\<rparr> \<and>
         tl (snake s') = [\<lparr>x = 32, y = 320\<rparr>, \<lparr>x = 64, y = 320\<rparr>]"
    using tick_drops_tail_or_eats [OF a, of 0 0] by (auto simp add: a f c)
qed

text \<open>
  C2. On a tick the four boundary tests are made on the head as it is before the step of
  this tick: the wall message is written in the tick exactly when one of them holds for
  that old head. When one holds the game is stopped: \<open>game\<close> is cleared and the timer
  it named no longer runs. The step in the current direction is applied afterwards: the
  head after the tick is the old head moved by it.
\<close>

theorem wall_check_on_old_head:
  assumes "snake s = h # t"
  shows "\<exists>s'. drawGame r1 r2 s = Inr s' \<and>
     (((''Oh no! Snake ran into the wall and died!'', ''red'') \<in> set (tickMessages s s')) =
        (isSnakeWest (x h) \<or> isSnakeEast (x h) \<or> isSnakeNorth (y h) \<or> isSnakeSouth (y h))) \<and>
     (isSnakeWest (x h) \<or> isSnakeEast (x h) \<or> isSnakeNorth (y h) \<or> isSnakeSouth (y h)
        \<longrightarrow> game s' = None \<and> (\<forall>g. game s = Some g \<longrightarrow> g \<notin> fst ` set (timers s'))) \<and>
     hd (snake s') = newHead (snakeDir s) (x h) (y h)"
proof -
  obtain s' where d: "drawGame r1 r2 s = Inr s'"
    using drawGame_total [OF assms] by blast
  have "((''Oh no! Snake ran into the wall and died!'', ''red'') \<in> set (tickMessages s s')) =
        (isSnakeWest (x h) \<or> isSnakeEast (x h) \<or> isSnakeNorth (y h) \<or> isSnakeSouth (y h))"
    unfolding drawGame_tickMessages [OF assms d] by simp
  moreover have "isSnakeWest (x h) \<or> isSnakeEast (x h) \<or> isSnakeNorth (y h) \<or> isSnakeSouth (y h)
        \<longrightarrow> game s' = None"
    unfolding drawGame_game [OF assms d] by simp
  moreover have "isSnakeWest (x h) \<or> isSnakeEast (x h) \<or> isSnakeNorth (y h) \<or> isSnakeSouth (y h)
        \<longrightarrow> (\<forall>g. game s = Some g \<longrightarrow> g \<notin> fst ` set (timers s'))"
    using drawGame_wall_timers [OF assms d] by blast
  moreover have "hd (snake s') = newHead (snakeDir s) (x h) (y h)"
    unfolding drawGame_snake [OF assms d] by simp
  ultimately show ?thesis using d by blast
qed

theorem wall_check_on_old_head_witness:
  "(\<exists>s'. drawGame 0 0 westApproach = Inr s' \<and>
         (''Oh no! Snake ran into the wall and died!'', ''red'') \<notin> set (tickMessages westApproach s') \<and>
         hd (snake s') = \<lparr>x = 0, y = 320\<rparr>) \<and>
   (\<exists>s'. drawGame 0 0 westWallState = Inr s' \<and>
         (''Oh no! Snake ran into the wall and died!'', ''red'') \<in> set (tickMessages westWallState s') \<and>
         game s' = None \<and> 1 \<notin> fst ` set (timers s') \<and>
         hd (snake s') = \<lparr>x = 32, y = 320\<rparr>)"
proof
  have a: "snake westApproach = \<lparr>x = 32, y = 320\<rparr> # [\<lparr>x = 64, y = 320\<rparr>, \<lparr>x = 96, y = 320\<rparr>]"
    and b: "snakeDir westApproach = Some ''left''"
    by (simp_all add: westApproach_eval)
  show "\<exists>s'. drawGame 0 0 westApproach = Inr s' \<and>
         (''Oh no! Snake ran into the wall and died!'', ''red'') \<notin> set (tickMessages westApproach s') \<and>
         hd (snake s') = \<lparr>x = 0, y = 320\<rparr>"
    using wall_check_on_old_head [OF a, of 0 0]
    by (auto simp add: b newHead_def isSnakeWest_def isSnakeEast_def isSnakeNorth_def
          isSnakeSouth_def boxSidePxls_def)
next
  have a: "snake westWallState = \<lparr>x = 0, y = 320\<rparr> # [\<lparr>x = 32, y = 320\<rparr>, \<lparr>x = 64, y = 320\<rparr>]"
    and b: "snakeDir westWallState = Some ''right''"
    and g: "game westWallState = Some 1"
    by (simp_all add: westWallState_eval)
  show "\<exists>s'. drawGame 0 0 westWallState = Inr s' \<and>
         (''Oh no! Snake ran into the wall and died!'', ''red'') \<in> set (tickMessages westWallState s') \<and>
         game s' = None \<and> 1 \<notin> fst ` set (timers s') \<and>
         hd (snake s') = \<lparr>x = 32, y = 320\<rparr>"
    using wall_check_on_old_head [OF a, of 0 0]
    by (auto simp add: b g newHead_def isSnakeWest_def isSnakeEast_def isSnakeNorth_def
          isSnakeSouth_def boxSidePxls_def)
qed

text \<open>
  C3. On a tick, after the new head has been put in front, the self-collision message is
  written exactly when some segment behind the head has both the head's \<open>x\<close> and the
  head's \<open>y\<close>. When that is so the game is stopped (\<open>game\<close> is cleared and the timer
  it named no longer runs, so no further tick fires) and the message is the last one
  written.
\<close>

theorem self_collision_iff:
  assumes "snake s = h # t"
  shows "\<exists>s'. drawGame r1 r2 s = Inr s' \<and>
     (((''Oh no! Snake ate itself!'', ''red'') \<in> set (tickMessages s s')) =
        (\<exists>b \<in> set (tl (snake s')). x (hd (snake s')) = x b \<and> y (hd (snake s')) = y b)) \<and>
     ((\<exists>b \<in> set (tl (snake s')). x (hd (snake s')) = x b \<and> y (hd (snake s')) = y b)
        \<longrightarrow> game s' = None \<and> (\<forall>g. game s = Some g \<longrightarrow> g \<notin> fst ` set (timers s')) \<and>
            last (messageLog s') = (''Oh no! Snake ate itself!'', ''red''))"
proof -
  obtain s' where d: "drawGame r1 r2 s = Inr s'"
    using drawGame_total [OF assms] by blast
  let ?hit = "\<exists>b \<in> set (tl (snake s')). x (hd (snake s')) = x b \<and> y (hd (snake s')) = y b"
  let ?n = "length (filter (\<lambda>b. x (hd (snake s')) = x b \<and> y (hd (snake s')) = y b) (tl (snake s')))"
  have n: "(0 < ?n) = ?hit"
    by (rule filter_length_pos)
  have a: "((''Oh no! Snake ate itself!'', ''red'') \<in> set (tickMessages s s')) = (0 < ?n)"
    unfolding drawGame_tickMessages [OF assms d] by auto
  have b: "?hit \<longrightarrow> game s' = None"
    unfolding drawGame_game [OF assms d] by simp
  have c: "?hit \<longrightarrow> last (messageLog s') = (''Oh no! Snake ate itself!'', ''red'')"
  proof
    assume ?hit
    then have "0 < ?n" using n by simp
    then have "replicate ?n (''Oh no! Snake ate itself!'', ''red'') \<noteq> []" by simp
    then show "last (messageLog s') = (''Oh no! Snake ate itself!'', ''red'')"
      unfolding drawGame_messageLog [OF assms d] by (simp add: \<open>0 < ?n\<close>)
  qed
  have t: "?hit \<longrightarrow> (\<forall>g. game s = Some g \<longrightarrow> g \<notin> fst ` set (timers s'))"
    using drawGame_hit_timers [OF assms d] by blast
  show ?thesis using d a n b c t by blast
qed

theorem self_collision_iff_witness:
  "(\<exists>s'. drawGame 0 0 westApproach = Inr s' \<and>
         snake s' = [\<lparr>x = 0, y = 320\<rparr>, \<lparr>x = 32, y = 320\<rparr>, \<lparr>x = 64, y = 320\<rparr>] \<and>
         (''Oh no! Snake ate itself!'', ''red'') \<notin> set (tickMessages westApproach s')) \<and>
   (\<exists>s'. drawGame 0 0 westWallState = Inr s' \<and>
         snake s' = [\<lparr>x = 32, y = 320\<rparr>, \<lparr>x = 0, y = 320\<rparr>, \<lparr>x = 32, y = 320\<rparr>] \<and>
         (''Oh no! Snake ate itself!'', ''red'') \<in> set (tickMessages westWallState s') \<and>
         game s' = None \<and> 1 \<notin> fst ` set (timers s') \<and>
         last (messageLog s') = (''Oh no! Snake ate itself!'', ''red'')) \<and>
   (game startedOnFood = Some 1 \<and>
    timers startedOnFood = [(1, 100)] \<and>
    (\<exists>s'. drawGame 0 0 startedOnFood = Inr s' \<and>
         snake s' = [\<lparr>x = 288, y = 320\<rparr>, \<lparr>x = 288, y = 320\<rparr>] \<and>
         (''Oh no! Snake ran into the wall and died!'', ''red'')
           \<notin> set (tickMessages startedOnFood s') \<and>
         (''Oh no! Snake ate itself!'', ''red'')
           \<in> set (tickMessages startedOnFood s') \<and>
         game s' = None \<and> 1 \<notin> fst ` set (timers s') \<and>
         last (messageLog s') = (''Oh no! Snake ate itself!'', ''red'')))"
proof (intro conjI)
  have a: "snake westApproach = \<lparr>x = 32, y = 320\<rparr> # [\<lparr>x = 64, y = 320\<rparr>, \<lparr>x = 96, y = 320\<rparr>]"
    and b: "snakeDir westApproach = Some ''left''"
    and f: "foodCoords westApproach = \<lparr>x = 288, y = 320\<rparr>"
    by (simp_all add: westApproach_eval)
  obtain s' where d: "drawGame 0 0 westApproach = Inr s'"
    and i: "((''Oh no! Snake ate itself!'', ''red'') \<in> set (tickMessages westApproach s')) =
        (\<exists>b \<in> set (tl (snake s')). x (hd (snake s')) = x b \<and> y (hd (snake s')) = y b)"
    using self_collision_iff [OF a, of 0 0] by blast
  have sn: "snake s' = [\<lparr>x = 0, y = 320\<rparr>, \<lparr>x = 32, y = 320\<rparr>, \<lparr>x = 64, y = 320\<rparr>]"
    unfolding drawGame_snake [OF a d] by (simp add: a b f newHead_def boxSidePxls_def)
  show "\<exists>s'. drawGame 0 0 westApproach = Inr s' \<and>
         snake s' = [\<lparr>x = 0, y = 320\<rparr>, \<lparr>x = 32, y = 320\<rparr>, \<lparr>x = 64, y = 320\<rparr>] \<and>
         (''Oh no! Snake ate itself!'', ''red'') \<notin> set (tickMessages westApproach s')"
    using d sn i by simp
next
  have a: "snake westWallState = \<lparr>x = 0, y = 320\<rparr> # [\<lparr>x = 32, y = 320\<rparr>, \<lparr>x = 64, y = 320\<rparr>]"
    and b: "snakeDir westWallState = Some ''right''"
    and f: "foodCoords westWallState = \<lparr>x = 288, y = 320\<rparr>"
    and g: "game westWallState = Some 1"
    by (simp_all add: westWallState_eval)
  obtain s' where d: "drawGame 0 0 westWallState = Inr s'"
    and i: "((''Oh no! Snake ate itself!'', ''red'') \<in> set (tickMessages westWallState s')) =
        (\<exists>b \<in> set (tl (snake s')). x (hd (snake s')) = x b \<and> y (hd (snake s')) = y b)"
    and j: "(\<exists>b \<in> set (tl (snake s')). x (hd (snake s')) = x b \<and> y (hd (snake s')) = y b)
        \<longrightarrow> game s' = None \<and> (\<forall>g. game westWallState = Some g \<longrightarrow> g \<notin> fst ` set (timers s')) \<and>
            last (messageLog s') = (''Oh no! Snake ate itself!'', ''red'')"
    using self_collision_iff [OF a, of 0 0] by blast
  have sn: "snake s' = [\<lparr>x = 32, y = 320\<rparr>, \<lparr>x = 0, y = 320\<rparr>, \<lparr>x = 32, y = 320\<rparr>]"
    unfolding drawGame_snake [OF a d] by (simp add: a b f newHead_def boxSidePxls_def)
  show "\<exists>s'. drawGame 0 0 westWallState = Inr s' \<and>
         snake s' = [\<lparr>x = 32, y = 320\<rparr>, \<lparr>x = 0, y = 320\<rparr>, \<lparr>x = 32, y = 320\<rparr>] \<and>
         (''Oh no! Snake ate itself!'', ''red'') \<in> set (tickMessages westWallState s') \<and>
         game s' = None \<and> 1 \<notin> fst ` set (timers s') \<and>
         last (messageLog s') = (''Oh no! Snake ate itself!'', ''red'')"
    using d sn i j g by simp
next
  let ?S = startedOnFood
  show "game ?S = Some 1" and "timers ?S = [(1, 100)]"
    by (simp_all add: started_on_food_eval)
  have a: "snake ?S = \<lparr>x = 288, y = 320\<rparr> # []"
    and b: "snakeDir ?S = None"
    and f: "foodCoords ?S = \<lparr>x = 288, y = 320\<rparr>"
    and g: "game ?S = Some 1"
    by (simp_all add: started_on_food_eval)
  obtain s' where d: "drawGame 0 0 ?S = Inr s'"
    and i: "((''Oh no! Snake ate itself!'', ''red'') \<in> set (tickMessages ?S s')) =
        (\<exists>b \<in> set (tl (snake s')). x (hd (snake s')) = x b \<and> y (hd (snake s')) = y b)"
    and j: "(\<exists>b \<in> set (tl (snake s')). x (hd (snake s')) = x b \<and> y (hd (snake s')) = y b)
        \<longrightarrow> game s' = None \<and> (\<forall>g. game ?S = Some g \<longrightarrow> g \<notin> fst ` set (timers s')) \<and>
            last (messageLog s') = (''Oh no! Snake ate itself!'', ''red'')"
    using self_collision_iff [OF a, of 0 0] by blast
  have sn: "snake s' = [\<lparr>x = 288, y = 320\<rparr>, \<lparr>x = 288, y = 320\<rparr>]"
    unfolding drawGame_snake [OF a d] by (simp add: a b f newHead_def)
  have w: "(''Oh no! Snake ran into the wall and died!'', ''red'') \<notin> set (tickMessages ?S s')"
    unfolding drawGame_tickMessages [OF a d]
    by (simp add: isSnakeWest_def isSnakeEast_def isSnakeNorth_def isSnakeSouth_def boxSidePxls_def)
  show "\<exists>s'. drawGame 0 0 ?S = Inr s' \<and>
         snake s' = [\<lparr>x = 288, y = 320\<rparr>, \<lparr>x = 288, y = 320\<rparr>] \<and>
         (''Oh no! Snake ran into the wall and died!'', ''red'') \<notin> set (tickMessages ?S s') \<and>
         (''Oh no! Snake ate itself!'', ''red'') \<in> set (tickMessages ?S s') \<and>
         game s' = None \<and> 1 \<notin> fst ` set (timers s') \<and>
         last (messageLog s') = (''Oh no! Snake ate itself!'', ''red'')"
    using d sn i j g w by simp
qed

text \<open>
  C6. Whatever the current direction and whichever arrow key is pressed: when the key
  asks for the reverse of the current direction (left, key 37, against right; right, key
  39, against left; up, key 38, against down; down, key 40, against up), the keydown
  handler leaves \<open>snakeDir\<close> as it is.
\<close>

theorem reverse_request_ignored:
  assumes "(code = 37 \<and> snakeDir s = Some ''right'') \<or> (code = 39 \<and> snakeDir s = Some ''left'')
       \<or> (code = 38 \<and> snakeDir s = Some ''down'') \<or> (code = 40 \<and> snakeDir s = Some ''up'')"
  shows "snakeDir (direction code s) = snakeDir s"
  using assms
proof (elim disjE conjE)
  assume "code = 37" "snakeDir s = Some ''right''"
  then show ?thesis by (simp add: direction_def Let_def falsyString_def)
next
  assume "code = 39" "snakeDir s = Some ''left''"
  then show ?thesis by (simp add: direction_def Let_def falsyString_def)
next
  assume "code = 38" "snakeDir s = Some ''down''"
  then show ?thesis by (simp add: direction_def Let_def falsyString_def)
next
  assume "code = 40" "snakeDir s = Some ''up''"
  then show ?thesis by (simp add: direction_def Let_def falsyString_def)
qed

theorem reverse_request_ignored_witness:
  "snakeDir westWallState = Some ''right'' \<and> snakeDir (direction 37 westWallState) = Some ''right''
   \<and> snakeDir westApproach = Some ''left'' \<and> snakeDir (direction 39 westApproach) = Some ''left''"
proof -
  have a: "snakeDir westWallState = Some ''right''" and b: "snakeDir westApproach = Some ''left''"
    by (simp_all add: westWallState_eval westApproach_eval)
  show ?thesis
    using reverse_request_ignored [of 37 westWallState] reverse_request_ignored [of 39 westApproach]
    by (simp add: a b)
qed

text \<open>
  C7. On a tick that runs while \<open>snakeDir\<close> is still unset, the head after the tick is
  the head before it.
\<close>

theorem unset_direction_head_stays:
  assumes "snake s = h # t" and "snakeDir s = None"
  shows "\<exists>s'. drawGame r1 r2 s = Inr s' \<and> hd (snake s') = h \<and> snake s' ! 0 = h"
  using assms by (simp add: drawGame_Cons newHead_def)

theorem unset_direction_head_stays_witness:
  "\<exists>s'. drawGame 0 0 (initial 0 0) = Inr s' \<and> hd (snake s') = \<lparr>x = 288, y = 320\<rparr>"
proof -
  have a: "snake (initial 0 0) = \<lparr>x = 288, y = 320\<rparr> # []"
    and b: "snakeDir (initial 0 0) = None"
    by (simp_all add: initial_def addEventListener_def boxSidePxls_def)
  show ?thesis
    using unset_direction_head_stays [OF a b, of 0 0] by blast
qed

text \<open>
  C8. In every state the page reaches from the loaded script, the snake has at least one
  segment; a tick from such a state ends normally, leaves a snake of at least one
  segment whose element 0 is the head computed in that tick, and behind it the old
  snake, whole or without its last segment.
\<close>

theorem snake_never_empty:
  assumes "reachable s"
  shows "1 \<le> length (snake s) \<and>
     (\<forall>r1 r2. \<exists>s'. drawGame r1 r2 s = Inr s' \<and> 1 \<le> length (snake s') \<and>
        snake s' ! 0 = newHead (snakeDir s) (x (hd (snake s))) (y (hd (snake s))) \<and>
        (tl (snake s') = snake s \<or> tl (snake s') = butlast (snake s)))"
proof -
  obtain h t where ht: "snake s = h # t"
    using reachable_wellFormed [OF assms] by (cases "snake s") (auto simp add: wellFormed_def)
  have "\<exists>s'. drawGame r1 r2 s = Inr s' \<and> 1 \<le> length (snake s') \<and>
        snake s' ! 0 = newHead (snakeDir s) (x (hd (snake s))) (y (hd (snake s))) \<and>
        (tl (snake s') = snake s \<or> tl (snake s') = butlast (snake s))" for r1 r2
  proof -
    obtain s' where d: "drawGame r1 r2 s = Inr s'"
      using drawGame_total [OF ht] by blast
    show ?thesis
      using d drawGame_snake [OF ht d] ht by auto
  qed
  then show ?thesis using ht by simp
qed

theorem snake_never_empty_witness:
  "reachable westWallState \<and> length (snake westWallState) = 3 \<and>
   (\<exists>s'. drawGame 0 0 westWallState = Inr s' \<and> 1 \<le> length (snake s') \<and>
      snake s' ! 0 = \<lparr>x = 32, y = 320\<rparr>)"
proof -
  have a: "snake westWallState = [\<lparr>x = 0, y = 320\<rparr>, \<lparr>x = 32, y = 320\<rparr>, \<lparr>x = 64, y = 320\<rparr>]"
    and b: "snakeDir westWallState = Some ''right''"
    by (simp_all add: westWallState_eval)
  obtain s' where "drawGame 0 0 westWallState = Inr s'" and "1 \<le> length (snake s')"
    and "snake s' ! 0 = newHead (snakeDir westWallState) (x (hd (snake westWallState)))
           (y (hd (snake westWallState)))"
    using snake_never_empty [OF reachable_westWallState] by blast
  then show ?thesis
    using reachable_westWallState by (simp add: a b newHead_def boxSidePxls_def)
qed

text \<open>
  C9. A wall collision does not end the tick. When one of the boundary tests holds for the
  old head, \<^verbatim>\<open>stopGame\<close> is called and the rest of the tick runs all the same: the step
  is applied and the new head is put in front of the snake as it was when the game was
  stopped, so the snake changes after the stop; the self-collision check runs, and each
  of its hits writes its message after the wall message, so that the header ends on the
  self-collision message when there is a hit and on the wall message when there is none.
\<close>

theorem tick_continues_after_wall:
  assumes "snake s = h # t"
    and "isSnakeWest (x h) \<or> isSnakeEast (x h) \<or> isSnakeNorth (y h) \<or> isSnakeSouth (y h)"
  shows "\<exists>s'. drawGame r1 r2 s = Inr s' \<and>
     game s' = None \<and>
     snake s' = newHead (snakeDir s) (x h) (y h) # snake (eatOrPop r1 r2 (x h) (y h) s) \<and>
     snake s' \<noteq> snake (eatOrPop r1 r2 (x h) (y h) s) \<and>
     tickMessages s s' =
       (''Oh no! Snake ran into the wall and died!'', ''red'')
       # replicate
           (length (filter (\<lambda>b. x (hd (snake s')) = x b \<and> y (hd (snake s')) = y b) (tl (snake s'))))
           (''Oh no! Snake ate itself!'', ''red'') \<and>
     last (messageLog s') =
       (if \<exists>b \<in> set (tl (snake s')). x (hd (snake s')) = x b \<and> y (hd (snake s')) = y b
        then (''Oh no! Snake ate itself!'', ''red'')
        else (''Oh no! Snake ran into the wall and died!'', ''red''))"
proof -
  obtain s' where d: "drawGame r1 r2 s = Inr s'"
    using drawGame_total [OF assms(1)] by blast
  let ?n = "length (filter (\<lambda>b. x (hd (snake s')) = x b \<and> y (hd (snake s')) = y b) (tl (snake s')))"
  have g: "game s' = None"
    unfolding drawGame_game [OF assms(1) d] using assms(2) by auto
  have sn: "snake s' = newHead (snakeDir s) (x h) (y h) # snake (eatOrPop r1 r2 (x h) (y h) s)"
    unfolding drawGame_snake [OF assms(1) d] by (simp add: eatOrPop_snake)
  have ne: "snake s' \<noteq> snake (eatOrPop r1 r2 (x h) (y h) s)"
    unfolding sn by simp
  have tm: "tickMessages s s' =
       (''Oh no! Snake ran into the wall and died!'', ''red'')
       # replicate ?n (''Oh no! Snake ate itself!'', ''red'')"
    unfolding drawGame_tickMessages [OF assms(1) d] using assms(2) by simp
  have la: "last (messageLog s') =
       (if \<exists>b \<in> set (tl (snake s')). x (hd (snake s')) = x b \<and> y (hd (snake s')) = y b
        then (''Oh no! Snake ate itself!'', ''red'')
        else (''Oh no! Snake ran into the wall and died!'', ''red''))"
  proof (cases "0 < ?n")
    case True
    then show ?thesis
      unfolding drawGame_messageLog [OF assms(1) d] filter_length_pos [symmetric]
      using assms(2) by simp
  next
    case False
    then show ?thesis
      unfolding drawGame_messageLog [OF assms(1) d] filter_length_pos [symmetric]
      using assms(2) by simp
  qed
  show ?thesis using d g sn ne tm la by blast
qed

theorem tick_continues_after_wall_witness:
  "reachable westWallState \<and>
   (\<exists>s'. drawGame 0 0 westWallState = Inr s' \<and> game s' = None \<and>
      snake s' = [\<lparr>x = 32, y = 320\<rparr>, \<lparr>x = 0, y = 320\<rparr>, \<lparr>x = 32, y = 320\<rparr>] \<and>
      tickMessages westWallState s' =
        [(''Oh no! Snake ran into the wall and died!'', ''red''),
         (''Oh no! Snake ate itself!'', ''red'')] \<and>
      last (messageLog s') = (''Oh no! Snake ate itself!'', ''red''))"
proof -
  have a: "snake westWallState = \<lparr>x = 0, y = 320\<rparr> # [\<lparr>x = 32, y = 320\<rparr>, \<lparr>x = 64, y = 320\<rparr>]"
    and b: "snakeDir westWallState = Some ''right''"
    and f: "foodCoords westWallState = \<lparr>x = 288, y = 320\<rparr>"
    by (simp_all add: westWallState_eval)
  have w: "isSnakeWest (x \<lparr>x = 0, y = 320\<rparr>) \<or> isSnakeEast (x \<lparr>x = 0, y = 320\<rparr>)
       \<or> isSnakeNorth (y \<lparr>x = 0, y = 320\<rparr>) \<or> isSnakeSouth (y \<lparr>x = 0, y = 320\<rparr>)"
    by (simp add: isSnakeWest_def boxSidePxls_def)
  have e: "snake (eatOrPop 0 0 0 320 westWallState) = [\<lparr>x = 0, y = 320\<rparr>, \<lparr>x = 32, y = 320\<rparr>]"
    by (simp add: eatOrPop_snake a f)
  show ?thesis
    using tick_continues_after_wall [OF a w, of 0 0] reachable_westWallState
    by (auto simp add: b e newHead_def boxSidePxls_def)
qed

subsection \<open>The score over the life of the page\<close>

lemma tryStartingGame_fields [simp]:
  "snake (tryStartingGame s) = snake s"
  "snakeDir (tryStartingGame s) = snakeDir s"
  "score (tryStartingGame s) = score s"
  "listeners (tryStartingGame s) = listeners s"
  "keyDownListener (tryStartingGame s) = keyDownListener s"
  by (simp_all add: tryStartingGame_def setInterval_def Let_def)

lemma runListener_fields [simp]:
  "score (runListener code l s) = score s"
  "snake (runListener code l s) = snake s"
  by (cases l; cases "snd l"; simp)+

lemma fold_runListener_score: "score (fold (runListener code) ls s) = score s"
  by (induction ls arbitrary: s) simp_all

lemma drawGame_score:
  "score s \<le> (case drawGame r1 r2 s of Inl _ \<Rightarrow> score s | Inr s' \<Rightarrow> score s')"
proof (cases "snake s")
  case Nil
  then show ?thesis by (simp add: drawGame_def)
next
  case (Cons h t)
  then show ?thesis by (simp add: drawGame_Cons eatOrPop_score)
qed

lemma fire_score: "score s \<le> score (fire e s)"
proof (cases e)
  case (Load i)
  then show ?thesis by (cases i) (simp_all add: fire_def)
next
  case (Interval g r1 r2)
  then show ?thesis
    using drawGame_score [of s r1 r2] by (simp add: fire_def split: sum.splits)
next
  case (KeyDown code)
  then show ?thesis by (simp add: fire_def fold_runListener_score)
next
  case (SliderChange v)
  then show ?thesis by (simp add: fire_def speedSlider_onchange_def)
qed

lemma run_score: "score s \<le> score (run es s)"
proof (induction es arbitrary: s)
  case Nil
  show ?case by simp
next
  case (Cons e es)
  have "score s \<le> score (fire e s)" by (rule fire_score)
  also have "\<dots> \<le> score (run es (fire e s))" by (rule Cons.IH)
  finally show ?case by simp
qed

text \<open>
  C10. The score never goes down: not by a tick, a key press, an image load or a move of
  the slider, so not over any sequence of them; \<^verbatim>\<open>stopGame\<close> and the keydown handler
  leave it as it is. A move of the slider, which stops and restarts the game, leaves the
  score, the snake and the direction as they are.
\<close>

theorem score_never_decreases:
  "score s \<le> score (fire e s) \<and> score s \<le> score (run es s) \<and>
   score s \<le> (case drawGame r1 r2 s of Inl _ \<Rightarrow> score s | Inr s' \<Rightarrow> score s') \<and>
   score (stopGame r s) = score s \<and> score (direction code s) = score s \<and>
   score (speedSlider_onchange v s) = score s \<and>
   snake (speedSlider_onchange v s) = snake s \<and>
   snakeDir (speedSlider_onchange v s) = snakeDir s"
  using fire_score [of s e] run_score [of s es] drawGame_score [of s r1 r2]
  by (simp add: speedSlider_onchange_def)

theorem score_never_decreases_witness:
  "score (initial (1 / 2) (1 / 2)) = 0 \<and> score westApproach = 2 \<and>
   score (initial (1 / 2) (1 / 2)) \<le> score westApproach \<and>
   score (speedSlider_onchange 15 westApproach) = 2 \<and>
   snake (speedSlider_onchange 15 westApproach) =
     [\<lparr>x = 32, y = 320\<rparr>, \<lparr>x = 64, y = 320\<rparr>, \<lparr>x = 96, y = 320\<rparr>] \<and>
   snakeDir (speedSlider_onchange 15 westApproach) = Some ''left''"
proof -
  have a: "score (initial (1 / 2) (1 / 2)) = 0"
    by (simp add: initial_def addEventListener_def)
  have b: "score westApproach = 2"
    and c: "snake westApproach = [\<lparr>x = 32, y = 320\<rparr>, \<lparr>x = 64, y = 320\<rparr>, \<lparr>x = 96, y = 320\<rparr>]"
    and d: "snakeDir westApproach = Some ''left''"
    by (simp_all add: westApproach_eval)
  have "score (speedSlider_onchange 15 westApproach) = score westApproach \<and>
        snake (speedSlider_onchange 15 westApproach) = snake westApproach \<and>
        snakeDir (speedSlider_onchange 15 westApproach) = snakeDir westApproach"
    using score_never_decreases [of westApproach] by blast
  then show ?thesis
    by (simp add: a b c d)
qed

subsection \<open>The keydown listener after a stop\<close>

text \<open>
  In every state the page reaches, \<^verbatim>\<open>stopGame\<close> clears the timer and leaves the table
  of listeners as it is: \<^verbatim>\<open>keyDownListener\<close> holds \<^verbatim>\<open>undefined\<close>, which names no
  listener. A key press after the stop still runs \<^verbatim>\<open>direction\<close>.
\<close>

lemma stopGame_reachable:
  assumes "reachable s"
  shows "timers (stopGame r s) = []"
    and "listeners (stopGame r s) = [(''keydown'', Direction)]"
    and "fire (KeyDown code) (stopGame r s) = direction code (stopGame r s)"
proof -
  have w: "wellFormed s" using assms by (rule reachable_wellFormed)
  show "timers (stopGame r s) = []"
    using w by (rule wellFormed_stopGame(3))
  show l: "listeners (stopGame r s) = [(''keydown'', Direction)]"
    using wellFormed_stopGame(2) [OF w] w by (simp add: wellFormed_def)
  show "fire (KeyDown code) (stopGame r s) = direction code (stopGame r s)"
    by (simp add: fire_def l)
qed

text \<open>
  C4. The claim: whenever \<^verbatim>\<open>stopGame\<close> runs, the timer is cleared and the keydown
  listener is removed, so that later arrow keys no longer change \<open>snakeDir\<close>. The first
  half holds. The second does not: here the game is stopped, once by \<^verbatim>\<open>stopGame\<close> itself
  in a running game and once by a move of the slider right after loading; each time
  \<^verbatim>\<open>direction\<close> is still registered, and the next arrow key changes \<open>snakeDir\<close>.
\<close>

theorem listener_survives_stopGame:
  "game westApproach = Some 1 \<and> timers westApproach = [(1, 100)] \<and>
   keyDownListener westApproach = None \<and>
   game (stopGame (Some ''Oh no! Snake ran into the wall and died!'') westApproach) = None \<and>
   timers (stopGame (Some ''Oh no! Snake ran into the wall and died!'') westApproach) = [] \<and>
   listeners (stopGame (Some ''Oh no! Snake ran into the wall and died!'') westApproach)
     = [(''keydown'', Direction)] \<and>
   snakeDir (stopGame (Some ''Oh no! Snake ran into the wall and died!'') westApproach)
     = Some ''left'' \<and>
   snakeDir (fire (KeyDown 38)
              (stopGame (Some ''Oh no! Snake ran into the wall and died!'') westApproach))
     = Some ''up'' \<and>
   snakeDir (run [Load GroundImg, Load FoodImg, SliderChange 15] (initial (1 / 2) (1 / 2))) = None \<and>
   snakeDir (run [Load GroundImg, Load FoodImg, SliderChange 15, KeyDown 37]
              (initial (1 / 2) (1 / 2))) = Some ''left''"
  unfolding westApproach_eval by code_simp

text \<open>
  C5. The claim: whatever \<^verbatim>\<open>Math.random()\<close> returns, the food lies in the arena, its
  row in \<open>[3, 18)\<close>. The largest binary64 value below one, \<open>1 - 2^-53\<close>, is a
  counterexample for the row: \<open>(1 - 2^-53) * 15\<close> rounds to \<open>15 - 2^-49\<close>, and
  \<open>15 - 2^-49 + 3\<close> lies halfway between \<open>18 - 2^-48\<close> and \<open>18\<close> and rounds to the even
  one, \<open>18\<close>. The food is then in row 18, which the wall test of \<^verbatim>\<open>drawGame\<close> counts as
  south of the arena.
\<close>

theorem food_row_below_arena:
  "(0 :: rat) \<le> 1 - 1 / 2 ^ 53 \<and> (1 - 1 / 2 ^ 53 :: rat) < 1 \<and>
   fl (1 - 1 / 2 ^ 53) = 1 - 1 / 2 ^ 53 \<and>
   fl ((1 - 1 / 2 ^ 53) * 15) = 15 - 1 / 2 ^ 49 \<and>
   fl (15 - 1 / 2 ^ 49 + 3) = 18 \<and>
   generateFoodCoords 0 (1 - 1 / 2 ^ 53) = \<lparr>x = 32, y = 576\<rparr> \<and>
   y (generateFoodCoords 0 (1 - 1 / 2 ^ 53)) = (arenaY0Boxes + arenaHeightBoxes) * boxSidePxls \<and>
   isSnakeSouth (y (generateFoodCoords 0 (1 - 1 / 2 ^ 53)))"
  by code_simp

text \<open>
  What does hold of \<^verbatim>\<open>generateFoodCoords\<close>, for all \<open>r1\<close> and \<open>r2\<close> that
  \<^verbatim>\<open>Math.random()\<close> may return (fixed points of \<open>fl\<close>, at least zero, below one):
  both coordinates are whole cells, the column is in \<open>[1, 18)\<close>, the row is in
  \<open>[3, 18]\<close>, and the row is 18 for the single value \<open>r2 = 1 - 2^-53\<close>.
\<close>

lemma food_in_arena_but_for_one_value:
  assumes "0 \<le> r1" and "r1 < 1" and "fl r1 = r1"
    and "0 \<le> r2" and "r2 < 1" and "fl r2 = r2"
  shows "x (generateFoodCoords r1 r2) mod boxSidePxls = 0 \<and>
         y (generateFoodCoords r1 r2) mod boxSidePxls = 0 \<and>
         arenaX0Boxes \<le> x (generateFoodCoords r1 r2) div boxSidePxls \<and>
         x (generateFoodCoords r1 r2) div boxSidePxls < arenaX0Boxes + arenaWidthBoxes \<and>
         arenaY0Boxes \<le> y (generateFoodCoords r1 r2) div boxSidePxls \<and>
         y (generateFoodCoords r1 r2) div boxSidePxls \<le> arenaY0Boxes + arenaHeightBoxes \<and>
         ((y (generateFoodCoords r1 r2) div boxSidePxls = arenaY0Boxes + arenaHeightBoxes)
            = (r2 = 1 - 1 / 2 ^ 53))"
proof -
  note r1 = binary64_below_one(1) [OF assms(3,1,2)]
  note r2 = binary64_below_one [OF assms(6,4,5)]
  have cx: "1 \<le> \<lfloor>fl (fl (r1 * 17) + 1)\<rfloor> \<and> \<lfloor>fl (fl (r1 * 17) + 1)\<rfloor> \<le> 17"
    using assms(1) r1 by (rule food_column)
  have cy0: "3 \<le> \<lfloor>fl (fl (r2 * 15) + 3)\<rfloor>"
    by (rule food_row(1) [OF assms(4) r2(1) fl_row_top])
  have "fl (fl (r2 * 15) + 3) \<le> 18"
    by (rule food_row(2) [OF assms(4) r2(1) fl_row_top])
  then have cy1: "\<lfloor>fl (fl (r2 * 15) + 3)\<rfloor> \<le> 18" by (simp add: floor_le_iff)
  have cy2: "(\<lfloor>fl (fl (r2 * 15) + 3)\<rfloor> = 18) = (r2 = 1 - 1 / 2 ^ 53)"
  proof (cases "r2 = 1 - 1 / 2 ^ 53")
    case True
    have "\<lfloor>fl (fl ((1 - 1 / 2 ^ 53) * 15) + 3)\<rfloor> = 18"
      by (simp only: fl_row_top floor_numeral)
    then have "\<lfloor>fl (fl (r2 * 15) + 3)\<rfloor> = 18"
      by (simp only: True)
    then show ?thesis using True by blast
  next
    case False
    have "fl (fl (r2 * 15) + 3) \<le> 18 - 1 / 2 ^ 48"
      by (rule food_row(2) [OF assms(4) r2(2) [OF False] fl_row_next])
    then have "fl (fl (r2 * 15) + 3) < 18" by simp
    then have "\<lfloor>fl (fl (r2 * 15) + 3)\<rfloor> < 18" by (simp add: floor_less_iff)
    then have "\<lfloor>fl (fl (r2 * 15) + 3)\<rfloor> \<noteq> 18" by linarith
    then show ?thesis using False by blast
  qed
  show ?thesis
    using cx cy0 cy1 cy2
    by (simp add: generateFoodCoords_def arenaWidthBoxes_def arenaHeightBoxes_def
          arenaX0Boxes_def arenaY0Boxes_def boxSidePxls_def)
qed

end
